theory Spec2Isabelle
  imports Complex_Main "HOL-Library.Log_Nat" "HOL-Library.Sublist" "HOL-Library.Word"
begin

section \<open>JavaScript numbers\<close>

text \<open>
  The TypeScript sources compute with the \<^verbatim>\<open>number\<close> type: IEEE 754 binary64 values.
  A number is modelled as NaN, one of the two infinities, or a finite value carried as an
  exact rational. Every arithmetic operation computes the exact rational result and then
  rounds it to the nearest binary64 value, ties to even (\<open>toDouble\<close>), as the hardware
  does. The two zeros are identified: no operation of the modelled code tells them apart
  (there is no division by a computed zero and no \<^verbatim>\<open>Object.is\<close>).
\<close>

datatype number = NaN | PosInfinity | NegInfinity | Num rat

definition ilog2 :: "rat \<Rightarrow> int" where
  \<comment> \<open>for \<open>a > 0\<close>: the integer \<open>e\<close> with \<open>2 powi e \<le> a < 2 powi (e + 1)\<close>\<close>
  "ilog2 a =
     (let k = bitlen (fst (quotient_of a)) - bitlen (snd (quotient_of a))
      in if 2 powi k \<le> a then k else k - 1)"

definition roundTiesToEven :: "rat \<Rightarrow> int" where
  "roundTiesToEven t =
     (let f = \<lfloor>t\<rfloor>; r = t - of_int f
      in if r < 1 / 2 then f
         else if 1 / 2 < r then f + 1
         else if even f then f else f + 1)"

definition signedInfinity :: "bool \<Rightarrow> number" where
  "signedInfinity positive = (if positive then PosInfinity else NegInfinity)"

definition toDouble :: "rat \<Rightarrow> number" where
  \<comment> \<open>binary64: 53 significant bits, least normal exponent \<open>-1022\<close>; a result that
      rounds to \<open>2^1024\<close> or more in magnitude overflows to an infinity\<close>
  "toDouble q =
     (if q = 0 then Num 0
      else
        let a = \<bar>q\<bar>;
            e = max (ilog2 a) (- 1022);
            u = 2 powi (e - 52);
            m = roundTiesToEven (a / u)
        in if 1024 \<le> e \<or> (e = 1023 \<and> 2 ^ 53 \<le> m)
           then signedInfinity (0 < q)
           else Num (if 0 < q then of_int m * u else - (of_int m * u)))"

fun num_add :: "number \<Rightarrow> number \<Rightarrow> number" where
  "num_add NaN _ = NaN"
| "num_add _ NaN = NaN"
| "num_add PosInfinity NegInfinity = NaN"
| "num_add NegInfinity PosInfinity = NaN"
| "num_add PosInfinity _ = PosInfinity"
| "num_add NegInfinity _ = NegInfinity"
| "num_add _ PosInfinity = PosInfinity"
| "num_add _ NegInfinity = NegInfinity"
| "num_add (Num a) (Num b) = toDouble (a + b)"

fun num_mul :: "number \<Rightarrow> number \<Rightarrow> number" where
  "num_mul NaN _ = NaN"
| "num_mul _ NaN = NaN"
| "num_mul PosInfinity PosInfinity = PosInfinity"
| "num_mul PosInfinity NegInfinity = NegInfinity"
| "num_mul NegInfinity PosInfinity = NegInfinity"
| "num_mul NegInfinity NegInfinity = PosInfinity"
| "num_mul PosInfinity (Num b) = (if b = 0 then NaN else signedInfinity (0 < b))"
| "num_mul NegInfinity (Num b) = (if b = 0 then NaN else signedInfinity (b < 0))"
| "num_mul (Num a) PosInfinity = (if a = 0 then NaN else signedInfinity (0 < a))"
| "num_mul (Num a) NegInfinity = (if a = 0 then NaN else signedInfinity (a < 0))"
| "num_mul (Num a) (Num b) = toDouble (a * b)"

fun num_div :: "number \<Rightarrow> number \<Rightarrow> number" where
  "num_div NaN _ = NaN"
| "num_div _ NaN = NaN"
| "num_div PosInfinity (Num b) = signedInfinity (0 \<le> b)"
| "num_div NegInfinity (Num b) = signedInfinity (b < 0)"
| "num_div (Num a) (Num b) =
     (if b = 0 then (if a = 0 then NaN else signedInfinity (0 < a))
      else toDouble (a / b))"
| "num_div (Num a) _ = Num 0"
| "num_div _ _ = NaN"

fun num_lt :: "number \<Rightarrow> number \<Rightarrow> bool" where
  "num_lt NaN _ = False"
| "num_lt _ NaN = False"
| "num_lt _ NegInfinity = False"
| "num_lt NegInfinity _ = True"
| "num_lt PosInfinity _ = False"
| "num_lt _ PosInfinity = True"
| "num_lt (Num a) (Num b) = (a < b)"

fun isNaN :: "number \<Rightarrow> bool" where
  "isNaN NaN = True"
| "isNaN _ = False"

definition num_le :: "number \<Rightarrow> number \<Rightarrow> bool" where
  \<comment> \<open>\<^verbatim>\<open>x <= y\<close>: false as soon as one side is NaN\<close>
  "num_le x y = (\<not> isNaN x \<and> \<not> isNaN y \<and> \<not> num_lt y x)"

definition num_ge :: "number \<Rightarrow> number \<Rightarrow> bool" where
  "num_ge x y = num_le y x"

definition num_gt :: "number \<Rightarrow> number \<Rightarrow> bool" where
  "num_gt x y = num_lt y x"

fun Math_round :: "number \<Rightarrow> number" where
  \<comment> \<open>the nearest integer, a tie going to the integer closer to \<open>+\<infinity>\<close>; the result of rounding
      a binary64 value is a binary64 value again\<close>
  "Math_round (Num v) = Num (of_int \<lfloor>v + 1 / 2\<rfloor>)"
| "Math_round x = x"

fun orZero :: "number option \<Rightarrow> number" where
  \<comment> \<open>\<^verbatim>\<open>x || 0\<close> on \<^verbatim>\<open>number | undefined\<close>: undefined, NaN and zero are falsy\<close>
  "orZero None = Num 0"
| "orZero (Some NaN) = Num 0"
| "orZero (Some x) = (if x = Num 0 then Num 0 else x)"

fun defaultZero :: "number option \<Rightarrow> number" where
  \<comment> \<open>the destructuring default \<^verbatim>\<open>{ price = 0 }\<close>: only undefined is replaced\<close>
  "defaultZero None = Num 0"
| "defaultZero (Some x) = x"

section \<open>JavaScript strings\<close>

text \<open>
  A string is a sequence of UTF-16 code units; \<open>str\<close> writes an ASCII text as such a
  sequence. White space is what \<^verbatim>\<open>trim\<close> and \<^verbatim>\<open>parseFloat\<close> strip, the white space and the
  line terminators of the language: tab, line feed, vertical tab, form feed, carriage
  return, space, no-break space, the Unicode space separators (U+1680, U+2000 to U+200A,
  U+202F, U+205F, U+3000), the line and paragraph separators and the byte order mark.
\<close>

type_synonym codeUnit = "16 word"

type_synonym jsString = "codeUnit list"

definition str :: "string \<Rightarrow> jsString" where
  "str s = map of_char s"

definition isWhiteSpace :: "codeUnit \<Rightarrow> bool" where
  "isWhiteSpace c =
     (c \<in> {0x0009, 0x000A, 0x000B, 0x000C, 0x000D, 0x0020, 0x00A0, 0x1680, 0x2028, 0x2029,
            0x202F, 0x205F, 0x3000, 0xFEFF}
      \<or> (0x2000 \<le> c \<and> c \<le> 0x200A))"

definition trimStart :: "jsString \<Rightarrow> jsString" where
  "trimStart s = dropWhile isWhiteSpace s"

definition trim :: "jsString \<Rightarrow> jsString" where
  "trim s = rev (dropWhile isWhiteSpace (rev (dropWhile isWhiteSpace s)))"

definition includes_string :: "jsString \<Rightarrow> jsString \<Rightarrow> bool" where
  \<comment> \<open>\<^verbatim>\<open>s.includes(t)\<close>: \<open>t\<close> occurs in \<open>s\<close> as a contiguous run\<close>
  "includes_string s t = sublist t s"

text \<open>
  \<^verbatim>\<open>toLowerCase\<close> is the lower-casing of the Unicode standard: a table of the runtime, which
  looks at the neighbours of some letters and can change the length of a text. The
  functions that call it take it as their first argument, and nothing is assumed of it.
  On a text of ASCII characters it changes the letters A to Z and nothing else, which is
  \<open>toLowerCaseAscii\<close>; the examples, all on ASCII texts, use it.
\<close>

definition toLowerCaseAscii :: "jsString \<Rightarrow> jsString" where
  "toLowerCaseAscii s = map (\<lambda>c. if 0x41 \<le> c \<and> c \<le> 0x5A then c + 0x20 else c) s"

subsection \<open>parseFloat\<close>

text \<open>
  \<^verbatim>\<open>parseFloat\<close> skips leading white space and reads the longest prefix that is a decimal
  literal: an optional sign, then \<^verbatim>\<open>Infinity\<close>, or digits with an optional fraction and an
  optional exponent. Without such a prefix the result is NaN. The value read is rounded to
  binary64.
\<close>

definition isDigit :: "codeUnit \<Rightarrow> bool" where
  "isDigit c = (0x30 \<le> c \<and> c \<le> 0x39)"

definition digitsValue :: "jsString \<Rightarrow> int" where
  "digitsValue ds = foldl (\<lambda>acc c. 10 * acc + (uint c - 48)) 0 ds"

definition exponentPart :: "jsString \<Rightarrow> int" where
  \<comment> \<open>the value of an exponent part at the head of the string, 0 when there is none\<close>
  "exponentPart s =
     (case s of
        [] \<Rightarrow> 0
      | c # r \<Rightarrow>
          if c = of_char CHR ''e'' \<or> c = of_char CHR ''E'' then
            (case r of
               [] \<Rightarrow> 0
             | d # r' \<Rightarrow>
                 if d = of_char CHR ''-'' then
                   (if takeWhile isDigit r' = [] then 0 else - digitsValue (takeWhile isDigit r'))
                 else if d = of_char CHR ''+'' then
                   (if takeWhile isDigit r' = [] then 0 else digitsValue (takeWhile isDigit r'))
                 else digitsValue (takeWhile isDigit r))
          else 0)"

definition unsignedDecimal :: "jsString \<Rightarrow> rat option" where
  \<comment> \<open>digits, optional fraction, optional exponent; None when no digit can be read\<close>
  "unsignedDecimal s =
     (let intPart = takeWhile isDigit s;
          r1 = dropWhile isDigit s;
          hasDot = (r1 \<noteq> [] \<and> hd r1 = of_char CHR ''.'');
          fracPart = (if hasDot then takeWhile isDigit (tl r1) else []);
          r2 = (if hasDot then dropWhile isDigit (tl r1) else r1)
      in if intPart = [] \<and> fracPart = [] then None
         else Some (of_int (digitsValue (intPart @ fracPart))
                      * 10 powi (exponentPart r2 - int (length fracPart))))"

definition parseFloat :: "jsString \<Rightarrow> number" where
  "parseFloat s =
     (let t = trimStart s;
          negative = (t \<noteq> [] \<and> hd t = of_char CHR ''-'');
          u = (if t \<noteq> [] \<and> (hd t = of_char CHR ''-'' \<or> hd t = of_char CHR ''+'') then tl t else t)
      in if prefix (str ''Infinity'') u then signedInfinity (\<not> negative)
         else (case unsignedDecimal u of
                 None \<Rightarrow> NaN
               | Some v \<Rightarrow> toDouble (if negative then - v else v)))"

section \<open>priceUtils.ts\<close>

definition roundPrice :: "number \<Rightarrow> number" where
  "roundPrice price = num_div (Math_round (num_mul price (Num 100))) (Num 100)"

definition parsePrice :: "jsString \<Rightarrow> number" where
  "parsePrice priceString =
     (let parsed = parseFloat priceString
      in if isNaN parsed \<or> num_lt parsed (Num 0) then Num 0 else roundPrice parsed)"

definition isValidPrice :: "number option \<Rightarrow> bool" where
  "isValidPrice price =
     (case price of None \<Rightarrow> False | Some p \<Rightarrow> \<not> isNaN p \<and> num_ge p (Num 0))"

section \<open>Menu items\<close>

text \<open>
  Modelled from the spec: the types \<^verbatim>\<open>MenuCategory\<close> and \<^verbatim>\<open>MenuItem\<close> of \<^verbatim>\<open>types.ts\<close>, which
  is not among the sources. A category is one of four fixed values (the screens list them
  and type their state with \<^verbatim>\<open>MenuCategory\<close>); an item has an id, a name, an optional
  description, an optional price (the code reads it with a default) and a category.
\<close>

datatype MenuCategory = appetizers | mains | desserts | beverages

record MenuItem =
  id' :: jsString
  name :: jsString
  description :: "jsString option"
  price :: "number option"
  category :: MenuCategory

section \<open>menuCalculations.ts\<close>

subsection \<open>calculateAveragePriceByCourse\<close>

text \<open>
  The first loop runs over the items in index order and keeps, per category, the running
  sum and the count. The count is a natural number: an array has fewer than \<open>2^32\<close>
  elements, where counting in binary64 is exact.
\<close>

type_synonym categoryTotals = "MenuCategory \<rightharpoonup> number \<times> nat"

fun accumulateTotals :: "MenuItem list \<Rightarrow> categoryTotals \<Rightarrow> categoryTotals" where
  "accumulateTotals [] categoryTotals = categoryTotals"
| "accumulateTotals (item # rest) categoryTotals =
     (let entry = (case categoryTotals (category item) of None \<Rightarrow> (Num 0, 0) | Some t \<Rightarrow> t)
      in accumulateTotals rest
           (categoryTotals(category item \<mapsto>
              (num_add (fst entry) (defaultZero (price item)), snd entry + 1))))"

definition calculateAveragePriceByCourse :: "MenuItem list \<Rightarrow> (MenuCategory \<rightharpoonup> number)" where
  "calculateAveragePriceByCourse items =
     (let categoryTotals = accumulateTotals items Map.empty
      in (\<lambda>category.
            case categoryTotals category of
              None \<Rightarrow> None
            | Some (sum_c, count_c) \<Rightarrow>
                Some (if 0 < count_c then roundPrice (num_div sum_c (Num (of_nat count_c)))
                      else Num 0)))"

subsection \<open>searchMenuItems\<close>

text \<open>
  The while loop runs over an index. Its state holds the array it reads, the array of
  results it fills and the index, so that what the loop does to either array is visible.
  \<^verbatim>\<open>searchMenuItems\<close> gives the array it returns together with the caller's array as it
  is afterwards.
\<close>

record SearchState =
  items_read :: "MenuItem list"
  results :: "MenuItem list"
  index :: nat

function searchLoop :: "(jsString \<Rightarrow> jsString) \<Rightarrow> jsString \<Rightarrow> SearchState \<Rightarrow> SearchState" where
  "searchLoop toLowerCase lowerSearchTerm st =
     (if index st < length (items_read st) then
        let item = items_read st ! index st;
            nameMatch = includes_string (toLowerCase (name item)) lowerSearchTerm;
            descMatch = (case description item of
                           None \<Rightarrow> False
                         | Some d \<Rightarrow> includes_string (toLowerCase d) lowerSearchTerm)
        in searchLoop toLowerCase lowerSearchTerm
             (st\<lparr>results := (if nameMatch \<or> descMatch then results st @ [item] else results st),
                 index := index st + 1\<rparr>)
      else st)"
  by pat_completeness auto
termination
  by (relation "measure (\<lambda>(toLowerCase, lowerSearchTerm, st). length (items_read st) - index st)")
     (auto simp: Let_def)

declare searchLoop.simps [simp del]

definition searchMenuItems ::
    "(jsString \<Rightarrow> jsString) \<Rightarrow> MenuItem list \<Rightarrow> jsString \<Rightarrow> MenuItem list \<times> MenuItem list" where
  "searchMenuItems toLowerCase items searchTerm =
     (if trim searchTerm = [] then (items, items)
      else
        let st = searchLoop toLowerCase (trim (toLowerCase searchTerm))
                   \<lparr>items_read = items, results = [], index = 0\<rparr>
        in (results st, items_read st))"

subsection \<open>getCategoryLabels\<close>

definition getCategoryLabels :: "MenuCategory \<rightharpoonup> jsString" where
  "getCategoryLabels =
     [appetizers \<mapsto> str ''Appetizers'', mains \<mapsto> str ''Main Courses'',
      desserts \<mapsto> str ''Desserts'', beverages \<mapsto> str ''Beverages'']"

subsection \<open>The global statistics cache\<close>

text \<open>
  The three module variables are a record that every operation receives and returns;
  \<^verbatim>\<open>new Date()\<close> is an argument, a time stamp.
\<close>

record StatisticsCache =
  totalMenuItems :: nat
  totalMenuValue :: number
  lastCalculationTime :: "nat option"

record Statistics = StatisticsCache +
  averageItemPrice :: number

definition initialCache :: StatisticsCache where
  "initialCache = \<lparr>totalMenuItems = 0, totalMenuValue = Num 0, lastCalculationTime = None\<rparr>"

fun totalValueLoop :: "MenuItem list \<Rightarrow> number \<Rightarrow> number" where
  "totalValueLoop [] value = value"
| "totalValueLoop (item # rest) value =
     totalValueLoop rest (num_add value (orZero (price item)))"

definition updateGlobalStatistics :: "nat \<Rightarrow> MenuItem list \<Rightarrow> StatisticsCache \<Rightarrow> StatisticsCache" where
  "updateGlobalStatistics now items cache =
     cache\<lparr>totalMenuItems := length items,
           totalMenuValue := roundPrice (totalValueLoop items (Num 0)),
           lastCalculationTime := Some now\<rparr>"

definition getGlobalStatistics :: "StatisticsCache \<Rightarrow> Statistics \<times> StatisticsCache" where
  "getGlobalStatistics cache =
     (let averageItemPrice' =
            (if 0 < totalMenuItems cache
             then roundPrice (num_div (totalMenuValue cache) (Num (of_nat (totalMenuItems cache))))
             else Num 0)
      in (\<lparr>totalMenuItems = totalMenuItems cache,
           totalMenuValue = roundPrice (totalMenuValue cache),
           lastCalculationTime = lastCalculationTime cache,
           averageItemPrice = averageItemPrice'\<rparr>,
          cache))"

text \<open>The exported operations of the module, as calls against the cache.\<close>

datatype call =
    CalculateAveragePriceByCourse "MenuItem list"
  | SearchMenuItems "MenuItem list" jsString
  | GetCategoryLabels
  | UpdateGlobalStatistics nat "MenuItem list"
  | GetGlobalStatistics

datatype answer =
    Averages "MenuCategory \<rightharpoonup> number"
  | Items "MenuItem list"
  | Labels "MenuCategory \<rightharpoonup> jsString"
  | Void
  | Stats Statistics

fun perform ::
    "(jsString \<Rightarrow> jsString) \<Rightarrow> call \<Rightarrow> StatisticsCache \<Rightarrow> answer \<times> StatisticsCache" where
  "perform toLowerCase (CalculateAveragePriceByCourse items) cache =
     (Averages (calculateAveragePriceByCourse items), cache)"
| "perform toLowerCase (SearchMenuItems items searchTerm) cache =
     (Items (fst (searchMenuItems toLowerCase items searchTerm)), cache)"
| "perform toLowerCase GetCategoryLabels cache = (Labels getCategoryLabels, cache)"
| "perform toLowerCase (UpdateGlobalStatistics now items) cache =
     (Void, updateGlobalStatistics now items cache)"
| "perform toLowerCase GetGlobalStatistics cache =
     (Stats (fst (getGlobalStatistics cache)), snd (getGlobalStatistics cache))"

fun performAll ::
    "(jsString \<Rightarrow> jsString) \<Rightarrow> call list \<Rightarrow> StatisticsCache \<Rightarrow> StatisticsCache" where
  "performAll toLowerCase [] cache = cache"
| "performAll toLowerCase (c # cs) cache =
     performAll toLowerCase cs (snd (perform toLowerCase c cache))"

fun isUpdate :: "call \<Rightarrow> bool" where
  "isUpdate (UpdateGlobalStatistics now items) = True"
| "isUpdate c = False"

section \<open>AddItemScreen.tsx: handleSave\<close>

text \<open>
  The component state that \<^verbatim>\<open>handleSave\<close> reads is a record. The only code that changes
  \<^verbatim>\<open>isEditing\<close> or \<^verbatim>\<open>editingId\<close> sets the first to true and the second to the id of the item
  being edited, so the two are one optional id: \<^verbatim>\<open>isEditing\<close> holds exactly when the id is
  there. The function shows an alert, or calls \<^verbatim>\<open>saveMenuItem\<close> and then shows an alert; what
  it does is the list of these effects in order. Two things come from outside: the text of
  \<^verbatim>\<open>Date.now()\<close> and whether the save succeeded.
\<close>

record CategoryOption =
  key :: MenuCategory
  label :: jsString

definition categories :: "CategoryOption list" where
  "categories =
     [\<lparr>key = appetizers, label = str ''Appetizers''\<rparr>,
      \<lparr>key = mains, label = str ''Main Courses''\<rparr>,
      \<lparr>key = desserts, label = str ''Desserts''\<rparr>,
      \<lparr>key = beverages, label = str ''Beverages''\<rparr>]"

record FormState =
  name_state :: jsString
  description_state :: jsString
  price_state :: jsString
  category_state :: MenuCategory
  editingId :: "jsString option"

definition isEditing :: "FormState \<Rightarrow> bool" where
  "isEditing st = (editingId st \<noteq> None)"

datatype effect =
    Alert jsString jsString
  | SaveMenuItem MenuItem

definition handleSave :: "jsString \<Rightarrow> bool \<Rightarrow> FormState \<Rightarrow> effect list" where
  "handleSave now saved st =
     (if trim (name_state st) = [] \<or> trim (price_state st) = [] then
        [Alert (str ''Validation Error'') (str ''Please fill in item name and price'')]
      else
        let priceNumber = parsePrice (price_state st)
        in if \<not> isValidPrice (Some priceNumber) \<or> num_le priceNumber (Num 0) then
             [Alert (str ''Invalid Price'') (str ''Please enter a valid price greater than 0'')]
           else
             let menuItem =
                   \<lparr>id' = (case editingId st of Some editing \<Rightarrow> editing | None \<Rightarrow> now),
                    name = trim (name_state st),
                    description = Some (trim (description_state st)),
                    price = Some priceNumber,
                    category = category_state st\<rparr>
             in [SaveMenuItem menuItem,
                 if saved
                 then Alert (str ''Success'')
                        (str ''Menu item '' @ (if isEditing st then str ''updated'' else str ''added'')
                           @ str '' successfully'')
                 else Alert (str ''Error'') (str ''Failed to save menu item. Please try again.'')])"

section \<open>The persistence gateway\<close>

text \<open>
  Modelled from the spec: \<^verbatim>\<open>utils/storage.ts\<close> (\<^verbatim>\<open>loadMenuItems\<close>, \<^verbatim>\<open>saveMenuItem\<close>) is not
  among the sources; only its callers are. The medium holds nothing yet, a collection, or
  a payload that cannot be decoded. Loading an empty medium gives the empty collection and
  loading an undecodable one fails. The upsert loads the collection, replaces the entry
  whose id matches if one exists, otherwise appends the item, and writes the collection
  back.
\<close>

datatype medium = NothingStored | Stored "MenuItem list" | Undecodable

datatype storageError = StorageError

definition loadMenuItems :: "medium \<Rightarrow> storageError + MenuItem list" where
  \<comment> \<open>Modelled from the spec: \<^verbatim>\<open>loadAll\<close> of the persistence gateway (storage.ts is missing)\<close>
  "loadMenuItems m =
     (case m of NothingStored \<Rightarrow> Inr [] | Stored items \<Rightarrow> Inr items | Undecodable \<Rightarrow> Inl StorageError)"

fun replaceById :: "MenuItem \<Rightarrow> MenuItem list \<Rightarrow> MenuItem list" where
  \<comment> \<open>Modelled from the spec: the entry whose id matches is replaced in place\<close>
  "replaceById item [] = []"
| "replaceById item (x # xs) =
     (if id' x = id' item then item # xs else x # replaceById item xs)"

definition saveMenuItem :: "MenuItem \<Rightarrow> medium \<Rightarrow> storageError + medium" where
  \<comment> \<open>Modelled from the spec: \<^verbatim>\<open>upsert\<close> of the persistence gateway (storage.ts is missing)\<close>
  "saveMenuItem item m =
     (case loadMenuItems m of
        Inl e \<Rightarrow> Inl e
      | Inr items \<Rightarrow>
          Inr (Stored (if \<exists>x \<in> set items. id' x = id' item
                       then replaceById item items
                       else items @ [item])))"

section \<open>Notions used in the statements\<close>

text \<open>Rounding to the nearest integer with a tie going away from zero.\<close>

definition roundHalfAwayFromZero :: "rat \<Rightarrow> int" where
  "roundHalfAwayFromZero v = (if 0 \<le> v then \<lfloor>v + 1 / 2\<rfloor> else \<lceil>v - 1 / 2\<rceil>)"

text \<open>
  The rounding of a price as the specification words it: scale by 100, round half away from
  zero, divide by 100, in binary64 arithmetic.
\<close>

definition roundPrice_halfAway :: "number \<Rightarrow> number" where
  "roundPrice_halfAway x =
     (case num_mul x (Num 100) of
        Num v \<Rightarrow> num_div (Num (of_int (roundHalfAwayFromZero v))) (Num 100)
      | y \<Rightarrow> num_div y (Num 100))"

text \<open>A number that is not finite, or is finite and at most ten trillion in magnitude.\<close>

fun withinTenTrillion :: "number \<Rightarrow> bool" where
  "withinTenTrillion (Num q) = (\<bar>q\<bar> \<le> 10 ^ 13)"
| "withinTenTrillion x = True"

text \<open>
  The prices of one category in input order, an absent price read as zero the way the
  destructuring default does, and the sum of a list of numbers taken from left to right in
  binary64 arithmetic.
\<close>

definition categoryPrices :: "MenuCategory \<Rightarrow> MenuItem list \<Rightarrow> number list" where
  "categoryPrices c items = map (\<lambda>i. defaultZero (price i)) (filter (\<lambda>i. category i = c) items)"

definition sumInOrder :: "number list \<Rightarrow> number" where
  "sumInOrder ps = foldl num_add (Num 0) ps"

text \<open>An item with its absent price made an explicit zero.\<close>

definition priceZeroIfMissing :: "MenuItem \<Rightarrow> MenuItem" where
  "priceZeroIfMissing i = (case price i of None \<Rightarrow> i\<lparr>price := Some (Num 0)\<rparr> | Some p \<Rightarrow> i)"

text \<open>An item for the examples: the text is both its id and its name.\<close>

definition menuItem :: "string \<Rightarrow> number option \<Rightarrow> MenuCategory \<Rightarrow> MenuItem" where
  "menuItem n p c =
     \<lparr>id' = str n, name = str n, description = None, price = p, category = c\<rparr>"

text \<open>The entry of a category in the running totals, zero sum and zero count when absent.\<close>

definition entryOrZero :: "categoryTotals \<Rightarrow> MenuCategory \<Rightarrow> number \<times> nat" where
  "entryOrZero m c = (case m c of None \<Rightarrow> (Num 0, 0) | Some t \<Rightarrow> t)"

text \<open>
  What \<^verbatim>\<open>getGlobalStatistics\<close> reports immediately after \<^verbatim>\<open>updateGlobalStatistics\<close>, the
  sum of all prices as the update loop reads them (absent, NaN and zero prices are falsy and
  count as zero), and the sum with only an absent price counted as zero.
\<close>

definition snapshotAfterUpdate :: "nat \<Rightarrow> MenuItem list \<Rightarrow> StatisticsCache \<Rightarrow> Statistics" where
  "snapshotAfterUpdate now items cache =
     fst (getGlobalStatistics (updateGlobalStatistics now items cache))"

definition totalOfPrices :: "MenuItem list \<Rightarrow> number" where
  "totalOfPrices items = sumInOrder (map (\<lambda>i. orZero (price i)) items)"

definition totalMissingAsZero :: "MenuItem list \<Rightarrow> number" where
  "totalMissingAsZero items = sumInOrder (map (\<lambda>i. defaultZero (price i)) items)"

text \<open>
  A text contains a term as a case-insensitive substring when the lower-cased term occurs
  in the lower-cased text. An item matches a term, ignoring case, when its name or its
  description contains it so. An item holds a text that is lower-cased already when the
  text occurs in its lower-cased name or in its lower-cased description.
\<close>

definition containsIgnoreCase :: "(jsString \<Rightarrow> jsString) \<Rightarrow> jsString \<Rightarrow> jsString \<Rightarrow> bool" where
  "containsIgnoreCase toLowerCase field term = sublist (toLowerCase term) (toLowerCase field)"

definition matchesTerm :: "(jsString \<Rightarrow> jsString) \<Rightarrow> jsString \<Rightarrow> MenuItem \<Rightarrow> bool" where
  "matchesTerm toLowerCase term item =
     (containsIgnoreCase toLowerCase (name item) term
      \<or> (case description item of
            None \<Rightarrow> False
          | Some d \<Rightarrow> containsIgnoreCase toLowerCase d term))"

definition holdsLowered :: "(jsString \<Rightarrow> jsString) \<Rightarrow> jsString \<Rightarrow> MenuItem \<Rightarrow> bool" where
  "holdsLowered toLowerCase lowered item =
     (sublist lowered (toLowerCase (name item))
      \<or> (case description item of
            None \<Rightarrow> False
          | Some d \<Rightarrow> sublist lowered (toLowerCase d)))"

text \<open>
  A non-negative value rounded to the nearest cent: the binary64 value of a whole,
  non-negative number of cents.
\<close>

definition roundedToCent :: "number \<Rightarrow> bool" where
  "roundedToCent p =
     (\<exists>n r. 0 \<le> n \<and> 0 \<le> r \<and> p = Num r \<and> toDouble (of_int n / 100) = Num r)"

section \<open>Rounding to binary64\<close>

text \<open>
  Some values of the rounding: the binary64 numbers written 0.1 and 21.99, a tie between two
  neighbours going to the one with the even significand, and a number that is
  representable staying as it is.
\<close>

lemma toDouble_examples:
  "toDouble (1 / 10) = Num (3602879701896397 / 2 ^ 55)"
  "toDouble (2199 / 100) = Num (6189634737867325 / 2 ^ 48)"
  "toDouble (2 ^ 53 + 1) = Num (2 ^ 53)"
  "toDouble (2 ^ 53 + 3) = Num (2 ^ 53 + 4)"
  "toDouble (- 25 / 2) = Num (- 25 / 2)"
  by code_simp+

lemma roundTiesToEven_error: "\<bar>of_int (roundTiesToEven t) - t\<bar> \<le> 1 / 2"
proof -
  have "of_int \<lfloor>t\<rfloor> \<le> t" and "t < of_int \<lfloor>t\<rfloor> + 1"
    by linarith+
  then show ?thesis
    unfolding roundTiesToEven_def Let_def by (simp add: abs_if) linarith
qed

lemma roundTiesToEven_nonneg: "0 \<le> t \<Longrightarrow> 0 \<le> roundTiesToEven t"
  unfolding roundTiesToEven_def Let_def by auto

lemma bitlen_rat_bounds:
  assumes "0 < n"
  shows "(2::rat) powi (bitlen n - 1) \<le> of_int n" and "of_int n < (2::rat) powi bitlen n"
proof -
  have b1: "1 \<le> bitlen n" using assms by (simp add: bitlen_ge_iff_power)
  have "(2::int) ^ nat (bitlen n - 1) \<le> n" and "n < 2 ^ nat (bitlen n)"
    using bitlen_bounds[OF assms] by auto
  then have "(of_int ((2::int) ^ nat (bitlen n - 1)) :: rat) \<le> of_int n"
    and "(of_int n :: rat) < of_int (2 ^ nat (bitlen n))"
    by (simp_all only: of_int_le_iff of_int_less_iff)
  then show "(2::rat) powi (bitlen n - 1) \<le> of_int n" and "of_int n < (2::rat) powi bitlen n"
    using b1 by (simp_all add: power_int_nonneg_exp)
qed

lemma ilog2_bounds:
  assumes "0 < a"
  shows "2 powi ilog2 a \<le> a" and "a < 2 powi (ilog2 a + 1)"
proof -
  obtain n d where nd: "quotient_of a = (n, d)" by (cases "quotient_of a")
  have d: "0 < d" using quotient_of_denom_pos[OF nd] .
  have a: "a = of_int n / of_int d" using quotient_of_div[OF nd] .
  have n: "0 < n" using assms a d by (simp add: zero_less_divide_iff)
  define k where "k = bitlen n - bitlen d"
  note bn = bitlen_rat_bounds[OF n] and bd = bitlen_rat_bounds[OF d]
  have dpos: "(0::rat) < of_int d" using d by simp
  have "2 powi (k - 1) * of_int d < (2::rat) powi (k - 1) * 2 powi bitlen d"
    using bd(2) by (simp add: mult_strict_left_mono)
  also have "\<dots> = 2 powi (bitlen n - 1)"
    by (simp add: k_def flip: power_int_add)
  also have "\<dots> \<le> of_int n" using bn(1) .
  finally have lower: "2 powi (k - 1) < a"
    using dpos by (simp add: a pos_less_divide_eq)
  have "of_int n < (2::rat) powi bitlen n" using bn(2) .
  also have "\<dots> = 2 powi (k + 1) * 2 powi (bitlen d - 1)"
    by (simp add: k_def flip: power_int_add)
  also have "\<dots> \<le> 2 powi (k + 1) * of_int d"
    using bd(1) by (simp add: mult_left_mono)
  finally have upper: "a < 2 powi (k + 1)"
    using dpos by (simp add: a pos_divide_less_eq)
  have il: "ilog2 a = (if 2 powi k \<le> a then k else k - 1)"
    by (simp add: ilog2_def nd k_def)
  show "2 powi ilog2 a \<le> a" using lower by (simp add: il)
  show "a < 2 powi (ilog2 a + 1)" using upper by (simp add: il not_le)
qed

lemma ilog2_less:
  assumes "0 < a" and "a < 2 powi k"
  shows "ilog2 a < k"
proof (rule ccontr)
  assume "\<not> ilog2 a < k"
  then have "(2::rat) powi k \<le> 2 powi ilog2 a"
    by (intro power_int_increasing) auto
  with ilog2_bounds(1)[OF assms(1)] assms(2) show False by linarith
qed

lemma toDouble_finite:
  assumes "q \<noteq> 0" and "ilog2 \<bar>q\<bar> < 1023"
  shows "toDouble q =
     Num (if 0 < q
          then of_int (roundTiesToEven (\<bar>q\<bar> / 2 powi (max (ilog2 \<bar>q\<bar>) (- 1022) - 52)))
                 * 2 powi (max (ilog2 \<bar>q\<bar>) (- 1022) - 52)
          else - (of_int (roundTiesToEven (\<bar>q\<bar> / 2 powi (max (ilog2 \<bar>q\<bar>) (- 1022) - 52)))
                 * 2 powi (max (ilog2 \<bar>q\<bar>) (- 1022) - 52)))"
proof -
  have "max (ilog2 \<bar>q\<bar>) (- 1022) < 1023" using assms(2) by simp
  then have over: "(1024 \<le> max (ilog2 \<bar>q\<bar>) (- 1022)
      \<or> (max (ilog2 \<bar>q\<bar>) (- 1022) = 1023
          \<and> 2 ^ 53 \<le> roundTiesToEven (\<bar>q\<bar> / 2 powi (max (ilog2 \<bar>q\<bar>) (- 1022) - 52))))
      = False"
    by auto
  have zero: "(q = 0) = False" using assms(1) by simp
  show ?thesis
    unfolding toDouble_def Let_def by (simp only: over zero if_False)
qed

lemma toDouble_error:
  assumes "\<bar>q\<bar> < 2 ^ 60"
  shows "\<exists>r. toDouble q = Num r \<and> \<bar>r - q\<bar> \<le> \<bar>q\<bar> / 2 ^ 53 + 1 / 2 ^ 100"
proof (cases "q = 0")
  case True
  then show ?thesis by (simp add: toDouble_def)
next
  case False
  define a where "a = \<bar>q\<bar>"
  define e where "e = max (ilog2 a) (- 1022)"
  define u where "u = (2::rat) powi (e - 52)"
  define m where "m = roundTiesToEven (a / u)"
  have a: "0 < a" using False by (simp add: a_def)
  have "a < 2 powi 60" using assms by (simp add: a_def)
  then have e0: "ilog2 a < 60" using a by (rule ilog2_less[rotated])
  have u: "0 < u" by (simp add: u_def)
  have td: "toDouble q = Num (if 0 < q then of_int m * u else - (of_int m * u))"
    using toDouble_finite[OF False] e0 by (simp add: a_def e_def u_def m_def)
  have "\<bar>of_int m - a / u\<bar> \<le> 1 / 2"
    unfolding m_def by (rule roundTiesToEven_error)
  then have "\<bar>of_int m - a / u\<bar> * u \<le> 1 / 2 * u"
    using u by (intro mult_right_mono) auto
  moreover have "\<bar>of_int m - a / u\<bar> * u = \<bar>(of_int m - a / u) * u\<bar>"
    using u by (simp add: abs_mult_pos)
  moreover have "(of_int m - a / u) * u = of_int m * u - a"
    using u by (simp add: left_diff_distrib)
  ultimately have err: "\<bar>of_int m * u - a\<bar> \<le> u / 2" by simp
  have half: "u / 2 = 2 powi (e - 53)"
    by (simp add: u_def power_int_diff)
  have bound: "u / 2 \<le> a / 2 ^ 53 + 1 / 2 ^ 100"
  proof (cases "- 1022 \<le> ilog2 a")
    case True
    then have "e = ilog2 a" by (simp add: e_def)
    then have "u / 2 = 2 powi ilog2 a / 2 ^ 53"
      by (simp add: half power_int_diff)
    also have "\<dots> \<le> a / 2 ^ 53"
      using ilog2_bounds(1)[OF a] by (simp add: divide_right_mono)
    finally show ?thesis by simp
  next
    case False
    then have "e - 53 \<le> - 100" by (simp add: e_def)
    then have "(2::rat) powi (e - 53) \<le> 2 powi (- 100)"
      by (intro power_int_increasing) auto
    then have "u / 2 \<le> 1 / 2 ^ 100" by (simp add: half)
    moreover have "0 \<le> a / 2 ^ 53" using a by simp
    ultimately show ?thesis by linarith
  qed
  have "\<bar>(if 0 < q then of_int m * u else - (of_int m * u)) - q\<bar> = \<bar>of_int m * u - a\<bar>"
    using False by (auto simp: a_def)
  with err bound td show ?thesis by (auto simp: a_def)
qed

lemma toDouble_nonneg:
  assumes "0 \<le> q"
  shows "toDouble q = PosInfinity \<or> (\<exists>r. toDouble q = Num r \<and> 0 \<le> r)"
  using assms unfolding toDouble_def Let_def signedInfinity_def
  by (auto simp del: power_int_numeral power_int_numeral_neg_numeral
        intro!: mult_nonneg_nonneg roundTiesToEven_nonneg divide_nonneg_nonneg)

text \<open>
  The rounding leaves every binary64 value as it is: a value \<open>m \<times> 2^k\<close> with a 53-bit
  significand \<open>m\<close> in the normal range, a multiple of \<open>2^-1074\<close> below the normal range, and
  hence every value that the rounding returns.
\<close>

lemma ilog2_unique:
  assumes "2 powi e \<le> a" and "a < 2 powi (e + 1)"
  shows "ilog2 a = e"
proof -
  have "(0::rat) < 2 powi e" by simp
  then have a: "0 < a" using assms(1) by linarith
  note b = ilog2_bounds [OF a]
  have "ilog2 a < e + 1" using a assms(2) by (rule ilog2_less)
  moreover have "e < ilog2 a + 1"
  proof (rule ccontr)
    assume "\<not> e < ilog2 a + 1"
    then have "(2::rat) powi (ilog2 a + 1) \<le> 2 powi e"
      by (intro power_int_increasing) auto
    with b(2) assms(1) show False by linarith
  qed
  ultimately show ?thesis by linarith
qed

lemma roundTiesToEven_of_int: "roundTiesToEven (of_int k) = k"
  by (simp add: roundTiesToEven_def)

lemma toDouble_normal:
  assumes m: "2 ^ 52 \<le> m" "m < 2 ^ 53" and k: "- 1074 \<le> k" "k \<le> 971"
  shows "toDouble (of_int m * 2 powi k) = Num (of_int m * 2 powi k)"
proof -
  define q :: rat where "q = of_int m * 2 powi k"
  have p: "(0::rat) < 2 powi k" by simp
  have m1: "(2::rat) ^ 52 \<le> of_int m" using m(1) by (simp flip: of_int_le_iff)
  have m2: "(of_int m :: rat) < 2 ^ 53" using m(2) by (simp flip: of_int_less_iff)
  have "(0::rat) < 2 ^ 52" by simp
  with m1 have mpos: "(0::rat) < of_int m" by linarith
  have qpos: "0 < q" unfolding q_def using mpos p by (rule mult_pos_pos)
  have "(2::rat) powi (52 + k) = 2 ^ 52 * 2 powi k"
    by (simp add: power_int_add)
  also have "\<dots> \<le> q" unfolding q_def using m1 p by (simp add: mult_right_mono)
  finally have lo: "2 powi (52 + k) \<le> q" .
  have "q < 2 ^ 53 * 2 powi k" unfolding q_def using m2 p by (simp add: mult_strict_right_mono)
  also have "\<dots> = 2 powi (52 + k + 1)"
    by (simp add: power_int_add)
  finally have hi: "q < 2 powi (52 + k + 1)" .
  have e: "ilog2 q = 52 + k" using lo hi by (rule ilog2_unique)
  have mx: "max (ilog2 \<bar>q\<bar>) (- 1022) = 52 + k" using qpos e k by simp
  have dv: "\<bar>q\<bar> / 2 powi (52 + k - 52) = of_int m" using qpos by (simp add: q_def)
  have "toDouble q = Num (of_int m * 2 powi k)"
    unfolding toDouble_def Let_def mx dv roundTiesToEven_of_int
    using qpos k m(2) by simp
  then show ?thesis by (simp add: q_def)
qed

lemma toDouble_subnormal:
  assumes m: "0 \<le> m" "m < 2 ^ 52"
  shows "toDouble (of_int m * 2 powi (- 1074)) = Num (of_int m * 2 powi (- 1074))"
proof (cases "m = 0")
  case True
  then show ?thesis by (simp add: toDouble_def)
next
  case False
  define q :: rat where "q = of_int m * 2 powi (- 1074)"
  have p: "(0::rat) < 2 powi (- 1074)" by (rule zero_less_power_int) simp
  have mpos: "(0::rat) < of_int m" using m(1) False by simp
  have m2: "(of_int m :: rat) < 2 ^ 52" using m(2) by (simp flip: of_int_less_iff)
  have qpos: "0 < q" unfolding q_def using mpos p by (rule mult_pos_pos)
  have "q < 2 ^ 52 * 2 powi (- 1074)"
    unfolding q_def using m2 p by (rule mult_strict_right_mono)
  also have "\<dots> = 2 powi 52 * 2 powi (- 1074)" by simp
  also have "\<dots> = 2 powi (52 + (- 1074))" by (rule power_int_add [symmetric]) simp
  also have "\<dots> = 2 powi (- 1022)" by simp
  finally have "ilog2 q < - 1022" using qpos by (intro ilog2_less)
  then have mx: "max (ilog2 \<bar>q\<bar>) (- 1022) = - 1022" using qpos by simp
  have dv: "\<bar>q\<bar> / 2 powi (- 1022 - 52) = of_int m"
    using qpos p by (simp add: q_def del: power_int_numeral power_int_numeral_neg_numeral)
  have "toDouble q = Num (of_int m * 2 powi (- 1074))"
    unfolding toDouble_def Let_def mx dv roundTiesToEven_of_int
    using qpos by (simp del: power_int_numeral power_int_numeral_neg_numeral)
  then show ?thesis by (simp only: q_def)
qed

lemma roundTiesToEven_le: "t \<le> of_int k \<Longrightarrow> roundTiesToEven t \<le> k"
proof (rule ccontr)
  assume a: "t \<le> of_int k" and "\<not> roundTiesToEven t \<le> k"
  then have "k + 1 \<le> roundTiesToEven t" by simp
  then have "(of_int k :: rat) + 1 \<le> of_int (roundTiesToEven t)"
    by (metis of_int_1 of_int_add of_int_le_iff)
  with a roundTiesToEven_error [of t] show False by linarith
qed

lemma roundTiesToEven_ge: "of_int k \<le> t \<Longrightarrow> k \<le> roundTiesToEven t"
proof (rule ccontr)
  assume a: "of_int k \<le> t" and "\<not> k \<le> roundTiesToEven t"
  then have "roundTiesToEven t + 1 \<le> k" by simp
  then have "(of_int (roundTiesToEven t) :: rat) + 1 \<le> of_int k"
    by (metis of_int_1 of_int_add of_int_le_iff)
  with a roundTiesToEven_error [of t] show False by linarith
qed

lemma toDouble_minus: "toDouble q = Num r \<Longrightarrow> toDouble (- q) = Num (- r)"
  unfolding toDouble_def Let_def signedInfinity_def
  by (auto split: if_splits simp del: power_int_numeral power_int_numeral_neg_numeral)

lemma toDouble_idempotent_pos:
  assumes "0 < q" and "toDouble q = Num r"
  shows "toDouble r = Num r"
proof -
  define e where "e = max (ilog2 q) (- 1022)"
  define u :: rat where "u = 2 powi (e - 52)"
  define m where "m = roundTiesToEven (q / u)"
  have u: "0 < u" unfolding u_def by simp
  have no: "\<not> (1024 \<le> e \<or> (e = 1023 \<and> 2 ^ 53 \<le> m))" and r: "r = of_int m * u"
    using assms unfolding toDouble_def Let_def signedInfinity_def e_def u_def m_def
    by (auto split: if_splits simp del: power_int_numeral power_int_numeral_neg_numeral)
  have e1: "- 1022 \<le> e" "ilog2 q \<le> e" by (simp_all add: e_def)
  have "q < 2 powi (ilog2 q + 1)" using ilog2_bounds(2) [OF assms(1)] .
  also have "\<dots> \<le> 2 powi (e + 1)" using e1(2) by (intro power_int_increasing) auto
  also have "\<dots> = 2 powi (53 + (e - 52))" by (rule arg_cong [where f = "\<lambda>i. 2 powi i"]) simp
  also have "\<dots> = 2 powi 53 * 2 powi (e - 52)" by (rule power_int_add) simp
  also have "\<dots> = 2 ^ 53 * u" by (simp add: u_def)
  finally have "q / u < 2 ^ 53" using u by (simp add: pos_divide_less_eq)
  then have "q / u \<le> of_int (2 ^ 53)" by simp
  then have mhi: "m \<le> 2 ^ 53" unfolding m_def by (rule roundTiesToEven_le)
  have "0 \<le> q / u" using assms(1) u by simp
  then have mlo: "0 \<le> m" unfolding m_def by (rule roundTiesToEven_nonneg)
  consider "m < 2 ^ 52" | "2 ^ 52 \<le> m" "m < 2 ^ 53" | "m = 2 ^ 53" using mhi by linarith
  then show ?thesis
  proof cases
    case 1
    have "e = - 1022"
    proof (rule ccontr)
      assume "e \<noteq> - 1022"
      then have "e = ilog2 q" by (simp add: e_def)
      then have "2 powi e \<le> q" using ilog2_bounds(1) [OF assms(1)] by simp
      moreover have "(2::rat) powi e = 2 powi (52 + (e - 52))"
        by (rule arg_cong [where f = "\<lambda>i. 2 powi i"]) simp
      then have "(2::rat) powi e = 2 ^ 52 * u"
        unfolding u_def by (subst (asm) power_int_add) simp_all
      ultimately have "of_int (2 ^ 52) \<le> q / u" using u by (simp add: pos_le_divide_eq)
      then have "2 ^ 52 \<le> m" unfolding m_def by (rule roundTiesToEven_ge)
      with 1 show False by simp
    qed
    then have "e - 52 = - 1074" by simp
    then have "u = 2 powi (- 1074)" unfolding u_def by (rule arg_cong)
    then show ?thesis unfolding r using toDouble_subnormal [OF mlo 1] by (simp only:)
  next
    case 2
    have "- 1074 \<le> e - 52" "e - 52 \<le> 971" using e1(1) no by auto
    from toDouble_normal [OF 2 this] show ?thesis by (simp add: r u_def)
  next
    case 3
    then have "e \<le> 1022" using no by auto
    then have k: "- 1074 \<le> e - 51" "e - 51 \<le> 971" using e1(1) by auto
    have "(2::rat) powi (e - 51) = 2 powi (1 + (e - 52))"
      by (rule arg_cong [where f = "\<lambda>i. 2 powi i"]) simp
    then have "(2::rat) powi (e - 51) = 2 * u"
      unfolding u_def by (subst (asm) power_int_add) simp_all
    then have "r = of_int (2 ^ 52) * 2 powi (e - 51)"
      unfolding r 3 by simp
    moreover have "toDouble (of_int (2 ^ 52) * 2 powi (e - 51)) = Num (of_int (2 ^ 52) * 2 powi (e - 51))"
      by (rule toDouble_normal [OF _ _ k]) simp_all
    ultimately show ?thesis by simp
  qed
qed

lemma toDouble_idempotent: "toDouble q = Num r \<Longrightarrow> toDouble r = Num r"
proof -
  assume a: "toDouble q = Num r"
  consider "q = 0" | "0 < q" | "q < 0" by linarith
  then show ?thesis
  proof cases
    case 1
    with a show ?thesis by (simp add: toDouble_def)
  next
    case 2
    then show ?thesis using a by (rule toDouble_idempotent_pos)
  next
    case 3
    then have "0 < - q" by simp
    moreover have "toDouble (- q) = Num (- r)" using a by (rule toDouble_minus)
    ultimately have "toDouble (- r) = Num (- r)" by (rule toDouble_idempotent_pos)
    from toDouble_minus [OF this] show ?thesis by simp
  qed
qed

lemma floor_half_eq:
  fixes w :: rat
  assumes "\<bar>w - of_int n\<bar> < 1 / 2"
  shows "\<lfloor>w + 1 / 2\<rfloor> = n"
proof (rule floor_unique)
  show "of_int n \<le> w + 1 / 2" using assms by linarith
  show "w + 1 / 2 < of_int n + 1" using assms by linarith
qed

lemma toDouble_error_small:
  assumes "\<bar>q\<bar> \<le> 10 ^ 15 + 200"
  shows "\<exists>r. toDouble q = Num r \<and> \<bar>r - q\<bar> \<le> 1 / 8"
proof -
  define A where "A = \<bar>q\<bar>"
  have A: "A \<le> 10 ^ 15 + 200" using assms by (simp add: A_def)
  then have "A < 2 ^ 60" by simp
  then obtain r where r: "toDouble q = Num r"
    and er: "\<bar>r - q\<bar> \<le> A / 2 ^ 53 + 1 / 2 ^ 100"
    using toDouble_error unfolding A_def by blast
  have "A / 2 ^ 53 + 1 / 2 ^ 100 \<le> 1 / 8" using A by simp
  with r er show ?thesis by fastforce
qed

lemma roundPrice_idempotent_bounded:
  assumes "\<bar>q\<bar> \<le> 10 ^ 13"
  shows "roundPrice (roundPrice (Num q)) = roundPrice (Num q)"
proof -
  have q100: "\<bar>q * 100\<bar> \<le> 10 ^ 15" using assms by (simp add: abs_mult)
  then have "\<bar>q * 100\<bar> \<le> 10 ^ 15 + 200" by simp
  then obtain v where v: "toDouble (q * 100) = Num v" and ev: "\<bar>v - q * 100\<bar> \<le> 1 / 8"
    using toDouble_error_small by blast
  define n where "n = \<lfloor>v + 1 / 2\<rfloor>"
  have "of_int \<lfloor>v + 1 / 2\<rfloor> \<le> v + 1 / 2" and "v + 1 / 2 < of_int \<lfloor>v + 1 / 2\<rfloor> + 1"
    by linarith+
  then have en: "\<bar>of_int n - v\<bar> \<le> 1 / 2"
    unfolding n_def by linarith
  have nb: "\<bar>(of_int n :: rat)\<bar> \<le> 10 ^ 15 + 1"
    using q100 ev en by linarith
  have r1: "roundPrice (Num q) = toDouble (of_int n / 100)"
    by (simp add: roundPrice_def v n_def)
  define N where "N = \<bar>(of_int n :: rat)\<bar>"
  have N: "N \<le> 10 ^ 15 + 1" using nb by (simp add: N_def)
  have "\<bar>(of_int n :: rat) / 100\<bar> = N / 100" by (simp add: N_def)
  moreover have "N / 100 < 2 ^ 60" using N by simp
  ultimately have "\<bar>(of_int n :: rat) / 100\<bar> < 2 ^ 60" by simp
  then obtain y where y: "toDouble (of_int n / 100) = Num y"
    and ey: "\<bar>y - of_int n / 100\<bar> \<le> \<bar>of_int n / 100\<bar> / 2 ^ 53 + 1 / 2 ^ 100"
    using toDouble_error by blast
  have "\<bar>of_int n / 100\<bar> / 2 ^ 53 + 1 / 2 ^ 100 = N / (100 * 2 ^ 53) + 1 / 2 ^ 100"
    by (simp add: N_def)
  also have "\<dots> \<le> 1 / 800" using N by simp
  finally have ey': "\<bar>y - of_int n / 100\<bar> \<le> 1 / 800" using ey by linarith
  have e1: "\<bar>y * 100 - of_int n\<bar> \<le> 1 / 8" using ey' by linarith
  then have "\<bar>y * 100\<bar> \<le> 10 ^ 15 + 200" using nb by linarith
  then obtain w where w: "toDouble (y * 100) = Num w" and ew: "\<bar>w - y * 100\<bar> \<le> 1 / 8"
    using toDouble_error_small by blast
  have "\<bar>w - of_int n\<bar> < 1 / 2"
    using e1 ew by linarith
  then have "\<lfloor>w + 1 / 2\<rfloor> = n" by (rule floor_half_eq)
  then have "roundPrice (Num y) = toDouble (of_int n / 100)"
    by (simp add: roundPrice_def w)
  then show ?thesis by (simp add: r1 y)
qed

lemma roundPrice_not_finite:
  "roundPrice NaN = NaN" "roundPrice PosInfinity = PosInfinity" "roundPrice NegInfinity = NegInfinity"
  by (simp_all add: roundPrice_def signedInfinity_def)

section \<open>roundPrice\<close>

text \<open>
  C4. The claim: roundPrice scales by 100, rounds to the nearest integer with exact halves
  away from zero, and divides by 100, so that \<open>-0.005\<close> becomes \<open>-0.01\<close>. The code rounds
  with \<^verbatim>\<open>Math.round\<close>, which sends a tie to the integer closer to \<open>+\<infinity>\<close>: \<open>-0.005\<close> scaled is
  exactly \<open>-0.5\<close> and rounds to zero, where the claim's rule gives \<open>-0.01\<close>.
\<close>

theorem roundPrice_negative_half_counterexample:
  "roundPrice (toDouble (- 5 / 1000)) = Num 0
   \<and> roundPrice_halfAway (toDouble (- 5 / 1000)) = toDouble (- 1 / 100)
   \<and> roundPrice (toDouble (- 5 / 1000)) \<noteq> roundPrice_halfAway (toDouble (- 5 / 1000))"
  by code_simp

text \<open>
  C4, as the code has it. For a finite price whose product with 100 is the finite binary64
  value \<open>v\<close>, roundPrice divides by 100 the integer \<open>n\<close> nearest to \<open>v\<close>, a tie going up
  (towards \<open>+\<infinity>\<close>). This is rounding half away from zero whenever \<open>v\<close> is not negative or
  is not an exact half; on a negative exact half it is one more than that. When the
  product overflows, the result is that infinity.
\<close>

theorem roundPrice_rounds_half_up:
  "case num_mul (Num x) (Num 100) of
     Num v \<Rightarrow>
       (\<exists>n. roundPrice (Num x) = num_div (Num (of_int n)) (Num 100)
            \<and> \<bar>of_int n - v\<bar> \<le> 1 / 2
            \<and> (\<bar>of_int n - v\<bar> = 1 / 2 \<longrightarrow> v < of_int n)
            \<and> (0 \<le> v \<or> v - of_int \<lfloor>v\<rfloor> \<noteq> 1 / 2 \<longrightarrow> n = roundHalfAwayFromZero v)
            \<and> (v < 0 \<and> v - of_int \<lfloor>v\<rfloor> = 1 / 2 \<longrightarrow> n = roundHalfAwayFromZero v + 1))
   | y \<Rightarrow> roundPrice (Num x) = y"
proof (cases "num_mul (Num x) (Num 100)")
  case (Num v)
  define n where "n = \<lfloor>v + 1 / 2\<rfloor>"
  have fl: "of_int \<lfloor>v\<rfloor> \<le> v" "v < of_int \<lfloor>v\<rfloor> + 1" by linarith+
  have n: "of_int n \<le> v + 1 / 2" "v + 1 / 2 < of_int n + 1"
    unfolding n_def by linarith+
  from Num have td: "toDouble (x * 100) = Num v" by simp
  have r: "roundPrice (Num x) = num_div (Num (of_int n)) (Num 100)"
    by (simp add: roundPrice_def td n_def)
  have near: "\<bar>of_int n - v\<bar> \<le> 1 / 2" using n by linarith
  have tie: "\<bar>of_int n - v\<bar> = 1 / 2 \<longrightarrow> v < of_int n" using n by linarith
  have pos: "n = roundHalfAwayFromZero v" if "0 \<le> v"
    using that by (simp add: roundHalfAwayFromZero_def n_def)
  have ceil: "\<lceil>v - 1 / 2\<rceil> = (if v - of_int \<lfloor>v\<rfloor> \<le> 1 / 2 then \<lfloor>v\<rfloor> else \<lfloor>v\<rfloor> + 1)"
    using fl by (auto intro!: ceiling_unique) linarith+
  have flo: "\<lfloor>v + 1 / 2\<rfloor> = (if v - of_int \<lfloor>v\<rfloor> < 1 / 2 then \<lfloor>v\<rfloor> else \<lfloor>v\<rfloor> + 1)"
    using fl by (auto intro!: floor_unique) linarith+
  have notie: "n = roundHalfAwayFromZero v" if "v - of_int \<lfloor>v\<rfloor> \<noteq> 1 / 2"
    using that pos by (cases "0 \<le> v") (auto simp: roundHalfAwayFromZero_def n_def ceil flo)
  have negtie: "n = roundHalfAwayFromZero v + 1" if "v < 0" "v - of_int \<lfloor>v\<rfloor> = 1 / 2"
    using that by (simp add: roundHalfAwayFromZero_def n_def ceil flo)
  have "\<exists>n. roundPrice (Num x) = num_div (Num (of_int n)) (Num 100)
            \<and> \<bar>of_int n - v\<bar> \<le> 1 / 2
            \<and> (\<bar>of_int n - v\<bar> = 1 / 2 \<longrightarrow> v < of_int n)
            \<and> (0 \<le> v \<or> v - of_int \<lfloor>v\<rfloor> \<noteq> 1 / 2 \<longrightarrow> n = roundHalfAwayFromZero v)
            \<and> (v < 0 \<and> v - of_int \<lfloor>v\<rfloor> = 1 / 2 \<longrightarrow> n = roundHalfAwayFromZero v + 1)"
    using r near tie pos notie negtie by blast
  then show ?thesis
    by (simp only: Num number.case)
next
  case NaN
  then show ?thesis by (simp add: toDouble_def Let_def signedInfinity_def split: if_splits)
next
  case PosInfinity
  then show ?thesis by (simp add: roundPrice_def signedInfinity_def)
next
  case NegInfinity
  then show ?thesis by (simp add: roundPrice_def signedInfinity_def)
qed

theorem roundPrice_rounds_half_up_witness:
  "num_mul (Num (- 1 / 8)) (Num 100) = Num (- 25 / 2)
   \<and> (\<exists>n. roundPrice (Num (- 1 / 8)) = num_div (Num (of_int n)) (Num 100)
          \<and> n = roundHalfAwayFromZero (- 25 / 2) + 1 \<and> n = - 12)"
proof -
  have m: "num_mul (Num (- 1 / 8)) (Num 100) = Num (- 25 / 2)" by code_simp
  have t: "(- 25 / 2 :: rat) < 0 \<and> (- 25 / 2 :: rat) - of_int \<lfloor>- 25 / 2 :: rat\<rfloor> = 1 / 2"
    by code_simp
  have h: "roundHalfAwayFromZero (- 25 / 2) + 1 = - 12" by code_simp
  from roundPrice_rounds_half_up [of "- 1 / 8"] t
  have "\<exists>n. roundPrice (Num (- 1 / 8)) = num_div (Num (of_int n)) (Num 100)
          \<and> n = roundHalfAwayFromZero (- 25 / 2) + 1"
    unfolding m by auto
  with m h show ?thesis by auto
qed

text \<open>
  C6. The claim: roundPrice is idempotent on every finite value. In binary64 the division
  by 100 and the multiplication by 100 each round, and for a value near forty trillion the
  second rounding moves the result by one unit in the last place.
\<close>

theorem roundPrice_idempotent_counterexample:
  "roundPrice (toDouble (39623823287974836 / 1000)) = Num (1267962345215195 / 32)
   \<and> roundPrice (roundPrice (toDouble (39623823287974836 / 1000))) = Num (5071849380860781 / 128)
   \<and> roundPrice (roundPrice (toDouble (39623823287974836 / 1000)))
       \<noteq> roundPrice (toDouble (39623823287974836 / 1000))"
  by code_simp

text \<open>
  C6, as the code has it: roundPrice is idempotent on every finite value of magnitude at
  most ten trillion, and on NaN and the infinities.
\<close>

theorem roundPrice_idempotent:
  assumes "withinTenTrillion x"
  shows "roundPrice (roundPrice x) = roundPrice x"
proof (cases x)
  case (Num q)
  with assms have "\<bar>q\<bar> \<le> 10 ^ 13" by simp
  then show ?thesis unfolding Num by (rule roundPrice_idempotent_bounded)
qed (simp_all add: roundPrice_not_finite)

theorem roundPrice_idempotent_witness:
  "withinTenTrillion (toDouble (12005 / 1000))
   \<and> roundPrice (toDouble (12005 / 1000)) = toDouble (1201 / 100)
   \<and> roundPrice (roundPrice (toDouble (12005 / 1000))) = roundPrice (toDouble (12005 / 1000))"
proof -
  have w: "withinTenTrillion (toDouble (12005 / 1000))" by code_simp
  have v: "roundPrice (toDouble (12005 / 1000)) = toDouble (1201 / 100)" by code_simp
  show ?thesis using w v roundPrice_idempotent [OF w] by simp
qed

section \<open>calculateAveragePriceByCourse\<close>

lemma entryOrZero_update:
  "entryOrZero (m(k \<mapsto> v)) c = (if c = k then v else entryOrZero m c)"
  by (simp add: entryOrZero_def)

lemma accumulateTotals_step:
  "accumulateTotals (item # rest) m =
     accumulateTotals rest
       (m(category item \<mapsto>
            (num_add (fst (entryOrZero m (category item))) (defaultZero (price item)),
             snd (entryOrZero m (category item)) + 1)))"
  by (simp add: entryOrZero_def Let_def)

lemma categoryPrices_Cons:
  "categoryPrices c (item # rest) =
     (if category item = c then defaultZero (price item) # categoryPrices c rest
      else categoryPrices c rest)"
  by (simp add: categoryPrices_def)

lemma accumulateTotals_category:
  "accumulateTotals items m c =
     (if categoryPrices c items = [] then m c
      else Some (foldl num_add (fst (entryOrZero m c)) (categoryPrices c items),
                 snd (entryOrZero m c) + length (categoryPrices c items)))"
proof (induction items arbitrary: m)
  case Nil
  show ?case by (simp add: categoryPrices_def)
next
  case (Cons item rest)
  define m' where "m' = m(category item \<mapsto>
            (num_add (fst (entryOrZero m (category item))) (defaultZero (price item)),
             snd (entryOrZero m (category item)) + 1))"
  have step: "accumulateTotals (item # rest) m c = accumulateTotals rest m' c"
    unfolding m'_def by (simp only: accumulateTotals_step)
  show ?case
  proof (cases "category item = c")
    case True
    have e: "entryOrZero m' c = (num_add (fst (entryOrZero m c)) (defaultZero (price item)),
                                 snd (entryOrZero m c) + 1)"
      using True by (simp add: m'_def entryOrZero_update)
    have l: "m' c = Some (num_add (fst (entryOrZero m c)) (defaultZero (price item)),
                          snd (entryOrZero m c) + 1)"
      using True by (simp add: m'_def)
    show ?thesis
      unfolding step Cons.IH [of m'] categoryPrices_Cons e l using True by simp
  next
    case False
    have e: "entryOrZero m' c = entryOrZero m c"
      using False by (simp add: m'_def entryOrZero_update)
    have l: "m' c = m c"
      using False by (simp add: m'_def)
    show ?thesis
      unfolding step Cons.IH [of m'] categoryPrices_Cons e l using False by simp
  qed
qed

lemma calculateAveragePriceByCourse_category:
  "calculateAveragePriceByCourse items c =
     (if categoryPrices c items = [] then None
      else Some (roundPrice (num_div (sumInOrder (categoryPrices c items))
                               (Num (of_nat (length (categoryPrices c items)))))))"
  by (simp add: calculateAveragePriceByCourse_def accumulateTotals_category entryOrZero_def
      sumInOrder_def)

lemma categoryPrices_empty_iff: "categoryPrices c items = [] \<longleftrightarrow> c \<notin> category ` set items"
  by (auto simp: categoryPrices_def filter_empty_conv)

lemma categoryPrices_priceZeroIfMissing:
  "categoryPrices c (map priceZeroIfMissing items) = categoryPrices c items"
  by (induction items) (auto simp: categoryPrices_def priceZeroIfMissing_def split: option.splits)

text \<open>
  C1. The claim: the keys are the categories that occur, each value is the rounded
  quotient of the category's sum and count, and the values do not change under any
  permutation of the input. The sum is accumulated in binary64 in input order, and
  addition there is not associative: four main courses at 21.99, 15.42, 39.88 and 31.29
  average to 27.14 in this order and to 27.15 in the reverse order.
\<close>

theorem averages_permutation_counterexample:
  "calculateAveragePriceByCourse
     [menuItem ''a'' (Some (toDouble (2199 / 100))) mains,
      menuItem ''b'' (Some (toDouble (1542 / 100))) mains,
      menuItem ''c'' (Some (toDouble (3988 / 100))) mains,
      menuItem ''d'' (Some (toDouble (3129 / 100))) mains] mains
     = Some (toDouble (2714 / 100))
   \<and> calculateAveragePriceByCourse
     [menuItem ''d'' (Some (toDouble (3129 / 100))) mains,
      menuItem ''c'' (Some (toDouble (3988 / 100))) mains,
      menuItem ''b'' (Some (toDouble (1542 / 100))) mains,
      menuItem ''a'' (Some (toDouble (2199 / 100))) mains] mains
     = Some (toDouble (2715 / 100))
   \<and> toDouble (2714 / 100) \<noteq> toDouble (2715 / 100)"
  by code_simp

text \<open>
  C1, as the code has it. The keys are exactly the categories that occur in the input.
  The value of a category is roundPrice of the quotient of the category's prices, summed
  in input order in binary64, and their count. The set of keys is the same for every
  input with the same items, and the whole result is the same for every reordering that
  keeps the order of the prices within each category.
\<close>

theorem averages_by_category:
  "dom (calculateAveragePriceByCourse items) = category ` set items
   \<and> (\<forall>c \<in> category ` set items.
         calculateAveragePriceByCourse items c =
           Some (roundPrice (num_div (sumInOrder (categoryPrices c items))
                               (Num (of_nat (length (categoryPrices c items)))))))
   \<and> (\<forall>items'. set items' = set items \<longrightarrow>
         dom (calculateAveragePriceByCourse items') = dom (calculateAveragePriceByCourse items))
   \<and> (\<forall>items'. (\<forall>c. categoryPrices c items' = categoryPrices c items) \<longrightarrow>
         calculateAveragePriceByCourse items' = calculateAveragePriceByCourse items)"
proof -
  have d: "dom (calculateAveragePriceByCourse xs) = category ` set xs" for xs
    by (auto simp: dom_def calculateAveragePriceByCourse_category categoryPrices_empty_iff)
  have v: "\<forall>c \<in> category ` set items.
         calculateAveragePriceByCourse items c =
           Some (roundPrice (num_div (sumInOrder (categoryPrices c items))
                               (Num (of_nat (length (categoryPrices c items))))))"
    by (simp add: calculateAveragePriceByCourse_category categoryPrices_empty_iff)
  have k: "\<forall>items'. set items' = set items \<longrightarrow>
         dom (calculateAveragePriceByCourse items') = dom (calculateAveragePriceByCourse items)"
    by (simp add: d)
  have p: "\<forall>items'. (\<forall>c. categoryPrices c items' = categoryPrices c items) \<longrightarrow>
         calculateAveragePriceByCourse items' = calculateAveragePriceByCourse items"
  proof (intro allI impI)
    fix items'
    assume "\<forall>c. categoryPrices c items' = categoryPrices c items"
    then show "calculateAveragePriceByCourse items' = calculateAveragePriceByCourse items"
      by (intro ext) (simp add: calculateAveragePriceByCourse_category)
  qed
  show ?thesis
    by (rule conjI [OF d conjI [OF v conjI [OF k p]]])
qed

theorem averages_by_category_witness:
  "dom (calculateAveragePriceByCourse
          [menuItem ''a'' (Some (Num 10)) mains, menuItem ''b'' (Some (Num 3)) desserts,
           menuItem ''c'' (Some (Num 5)) mains]) = {mains, desserts}
   \<and> calculateAveragePriceByCourse
          [menuItem ''a'' (Some (Num 10)) mains, menuItem ''b'' (Some (Num 3)) desserts,
           menuItem ''c'' (Some (Num 5)) mains] mains = Some (Num (15 / 2))
   \<and> calculateAveragePriceByCourse
          [menuItem ''b'' (Some (Num 3)) desserts, menuItem ''a'' (Some (Num 10)) mains,
           menuItem ''c'' (Some (Num 5)) mains]
       = calculateAveragePriceByCourse
          [menuItem ''a'' (Some (Num 10)) mains, menuItem ''b'' (Some (Num 3)) desserts,
           menuItem ''c'' (Some (Num 5)) mains]"
proof -
  let ?items = "[menuItem ''a'' (Some (Num 10)) mains, menuItem ''b'' (Some (Num 3)) desserts,
                 menuItem ''c'' (Some (Num 5)) mains]"
  let ?items' = "[menuItem ''b'' (Some (Num 3)) desserts, menuItem ''a'' (Some (Num 10)) mains,
                  menuItem ''c'' (Some (Num 5)) mains]"
  note t = averages_by_category [of ?items]
  have c: "category ` set ?items = {mains, desserts}"
    by (auto simp: menuItem_def)
  have m: "mains \<in> category ` set ?items"
    by (simp add: menuItem_def)
  have v: "roundPrice (num_div (sumInOrder (categoryPrices mains ?items))
                         (Num (of_nat (length (categoryPrices mains ?items))))) = Num (15 / 2)"
    by code_simp
  have o: "\<forall>c. categoryPrices c ?items' = categoryPrices c ?items"
    by (simp add: categoryPrices_def menuItem_def)
  have k: "dom (calculateAveragePriceByCourse ?items) = {mains, desserts}"
    using conjunct1 [OF t] unfolding c .
  have "calculateAveragePriceByCourse ?items mains =
      Some (roundPrice (num_div (sumInOrder (categoryPrices mains ?items))
                          (Num (of_nat (length (categoryPrices mains ?items))))))"
    using conjunct1 [OF conjunct2 [OF t]] m by (rule bspec)
  then have a: "calculateAveragePriceByCourse ?items mains = Some (Num (15 / 2))"
    unfolding v .
  have p: "calculateAveragePriceByCourse ?items' = calculateAveragePriceByCourse ?items"
    using conjunct2 [OF conjunct2 [OF conjunct2 [OF t]]] o by blast
  show ?thesis
    by (rule conjI [OF k conjI [OF a p]])
qed

text \<open>
  C10. An item without a price is counted and adds zero: the result is the one obtained
  when every absent price is written as an explicit zero, and for every such item the
  running totals of its category hold the sum over all the category's items with absent
  prices as zero, and a count that includes the item.
\<close>

theorem missing_price_counts_as_zero:
  "calculateAveragePriceByCourse (map priceZeroIfMissing items) = calculateAveragePriceByCourse items
   \<and> (\<forall>i \<in> set items. price i = None \<longrightarrow>
        (\<exists>n. accumulateTotals items Map.empty (category i)
                = Some (sumInOrder (categoryPrices (category i) items), n)
           \<and> n = length (filter (\<lambda>j. category j = category i) items)
           \<and> 0 < n))"
proof -
  have a: "calculateAveragePriceByCourse (map priceZeroIfMissing items) = calculateAveragePriceByCourse items"
    by (intro ext) (simp add: calculateAveragePriceByCourse_category categoryPrices_priceZeroIfMissing)
  have b: "\<exists>n. accumulateTotals items Map.empty (category i)
                = Some (sumInOrder (categoryPrices (category i) items), n)
           \<and> n = length (filter (\<lambda>j. category j = category i) items)
           \<and> 0 < n" if "i \<in> set items" for i
  proof -
    have ne: "categoryPrices (category i) items \<noteq> []"
      using that by (auto simp: categoryPrices_empty_iff)
    then have "filter (\<lambda>j. category j = category i) items \<noteq> []"
      by (simp add: categoryPrices_def)
    moreover have "length (categoryPrices (category i) items) = length (filter (\<lambda>j. category j = category i) items)"
      by (simp add: categoryPrices_def)
    ultimately show ?thesis
      using ne by (simp add: accumulateTotals_category entryOrZero_def sumInOrder_def)
  qed
  show ?thesis using a b by blast
qed

theorem missing_price_counts_as_zero_witness:
  "price (menuItem ''b'' None mains) = None
   \<and> calculateAveragePriceByCourse [menuItem ''a'' (Some (Num 10)) mains, menuItem ''b'' None mains] mains
       = Some (Num 5)
   \<and> calculateAveragePriceByCourse [menuItem ''a'' (Some (Num 10)) mains] mains = Some (Num 10)
   \<and> accumulateTotals [menuItem ''a'' (Some (Num 10)) mains, menuItem ''b'' None mains] Map.empty mains
       = Some (Num 10, 2)"
proof -
  let ?items = "[menuItem ''a'' (Some (Num 10)) mains, menuItem ''b'' None mains]"
  note t = missing_price_counts_as_zero [of ?items]
  have i: "menuItem ''b'' None mains \<in> set ?items" by simp
  have p: "price (menuItem ''b'' None mains) = None" by (simp add: menuItem_def)
  have c: "category (menuItem ''b'' None mains) = mains" by (simp add: menuItem_def)
  have s: "sumInOrder (categoryPrices mains ?items) = Num 10" by code_simp
  have l: "length (filter (\<lambda>j. category j = mains) ?items) = 2" by (simp add: menuItem_def)
  from t i p have "\<exists>n. accumulateTotals ?items Map.empty (category (menuItem ''b'' None mains))
                = Some (sumInOrder (categoryPrices (category (menuItem ''b'' None mains)) ?items), n)
           \<and> n = length (filter (\<lambda>j. category j = category (menuItem ''b'' None mains)) ?items)"
    by blast
  then have a: "accumulateTotals ?items Map.empty mains = Some (Num 10, 2)"
    unfolding c s l by simp
  have v1: "calculateAveragePriceByCourse ?items mains = Some (Num 5)" by code_simp
  have v2: "calculateAveragePriceByCourse [menuItem ''a'' (Some (Num 10)) mains] mains = Some (Num 10)"
    by code_simp
  show ?thesis using p a v1 v2 by simp
qed

section \<open>parsePrice\<close>

lemma roundPrice_nonneg:
  assumes "0 \<le> p"
  shows "roundPrice (Num p) = PosInfinity \<or> (\<exists>r. roundPrice (Num p) = Num r \<and> 0 \<le> r)"
proof -
  have "0 \<le> p * 100" using assms by simp
  then consider "toDouble (p * 100) = PosInfinity" | r where "toDouble (p * 100) = Num r" "0 \<le> r"
    using toDouble_nonneg by blast
  then show ?thesis
  proof cases
    case 1
    then show ?thesis by (simp add: roundPrice_def signedInfinity_def)
  next
    case 2
    then have "0 \<le> \<lfloor>r + 1 / 2\<rfloor>" by simp
    then have "(0::rat) \<le> of_int \<lfloor>r + 1 / 2\<rfloor> / 100" by simp
    from toDouble_nonneg [OF this] show ?thesis
      by (simp add: roundPrice_def 2(1))
  qed
qed

text \<open>
  C5. The claim: parsePrice returns 0 whenever the parsed value is not finite or is
  negative. The code tests for NaN and for a negative value only; \<^verbatim>\<open>parseFloat\<close> reads the
  text \<^verbatim>\<open>Infinity\<close> as positive infinity, which passes both tests and is returned.
\<close>

theorem parsePrice_infinity_counterexample:
  "parseFloat (str ''Infinity'') = PosInfinity \<and> parsePrice (str ''Infinity'') = PosInfinity
   \<and> parsePrice (str ''Infinity'') \<noteq> Num 0"
  by code_simp

text \<open>
  C5, as the code has it. parsePrice is a total function of the text. It returns 0 when
  the parsed value is NaN or negative (negative infinity included) and roundPrice of the
  parsed value otherwise, so positive infinity comes back as positive infinity. The result
  is never NaN and never negative. The four examples of the claim hold.
\<close>

theorem parsePrice_result:
  "(isNaN (parseFloat s) \<or> num_lt (parseFloat s) (Num 0) \<longrightarrow> parsePrice s = Num 0)
   \<and> (\<not> isNaN (parseFloat s) \<and> \<not> num_lt (parseFloat s) (Num 0) \<longrightarrow>
        parsePrice s = roundPrice (parseFloat s))
   \<and> (parseFloat s = PosInfinity \<longrightarrow> parsePrice s = PosInfinity)
   \<and> \<not> isNaN (parsePrice s) \<and> \<not> num_lt (parsePrice s) (Num 0)
   \<and> parsePrice (str ''-5'') = Num 0 \<and> parsePrice (str ''abc'') = Num 0
   \<and> parsePrice (str ''12.5'') = toDouble (125 / 10) \<and> parsePrice (str ''12.567'') = toDouble (1257 / 100)"
proof -
  have a: "isNaN (parseFloat s) \<or> num_lt (parseFloat s) (Num 0) \<longrightarrow> parsePrice s = Num 0"
    by (simp add: parsePrice_def Let_def)
  have b: "\<not> isNaN (parseFloat s) \<and> \<not> num_lt (parseFloat s) (Num 0) \<longrightarrow>
        parsePrice s = roundPrice (parseFloat s)"
    by (simp add: parsePrice_def Let_def)
  have c: "parseFloat s = PosInfinity \<longrightarrow> parsePrice s = PosInfinity"
    by (simp add: parsePrice_def Let_def roundPrice_not_finite)
  have d: "\<not> isNaN (parsePrice s) \<and> \<not> num_lt (parsePrice s) (Num 0)"
  proof (cases "parseFloat s")
    case (Num p)
    show ?thesis
    proof (cases "p < 0")
      case True
      then show ?thesis by (simp add: parsePrice_def Num)
    next
      case False
      then have "0 \<le> p" by simp
      from roundPrice_nonneg [OF this] False show ?thesis
        by (auto simp: parsePrice_def Num)
    qed
  qed (simp_all add: parsePrice_def roundPrice_not_finite)
  have e1: "parsePrice (str ''-5'') = Num 0" by code_simp
  have e2: "parsePrice (str ''abc'') = Num 0" by code_simp
  have e3: "parsePrice (str ''12.5'') = toDouble (125 / 10)" by code_simp
  have e4: "parsePrice (str ''12.567'') = toDouble (1257 / 100)" by code_simp
  show ?thesis
    by (intro conjI a b c conjunct1 [OF d] conjunct2 [OF d] e1 e2 e3 e4)
qed

theorem parsePrice_result_witness:
  "\<not> isNaN (parseFloat (str ''12.567'')) \<and> \<not> num_lt (parseFloat (str ''12.567'')) (Num 0)
   \<and> parsePrice (str ''12.567'') = roundPrice (parseFloat (str ''12.567''))
   \<and> num_lt (parseFloat (str ''-5'')) (Num 0) \<and> parsePrice (str ''-5'') = Num 0
   \<and> isNaN (parseFloat (str ''abc'')) \<and> parsePrice (str ''abc'') = Num 0
   \<and> parseFloat (str ''Infinity'') = PosInfinity \<and> parsePrice (str ''Infinity'') = PosInfinity"
proof -
  have a: "\<not> isNaN (parseFloat (str ''12.567'')) \<and> \<not> num_lt (parseFloat (str ''12.567'')) (Num 0)"
    by code_simp
  have b: "num_lt (parseFloat (str ''-5'')) (Num 0)" by code_simp
  have c: "isNaN (parseFloat (str ''abc''))" by code_simp
  have d: "parseFloat (str ''Infinity'') = PosInfinity" by code_simp
  show ?thesis
    using a b c d parsePrice_result [of "str ''12.567''"] parsePrice_result [of "str ''-5''"]
      parsePrice_result [of "str ''abc''"] parsePrice_result [of "str ''Infinity''"]
    by blast
qed

section \<open>The statistics cache\<close>

lemma totalValueLoop_foldl:
  "totalValueLoop items v = foldl num_add v (map (\<lambda>i. orZero (price i)) items)"
  by (induction items arbitrary: v) simp_all

lemma totalValueLoop_total: "totalValueLoop items (Num 0) = totalOfPrices items"
  by (simp add: totalValueLoop_foldl totalOfPrices_def sumInOrder_def)

text \<open>
  C2. The claim: right after the update, the snapshot reports the number of items, the
  rounded sum of the prices with an absent price as 0, and the rounded quotient of the
  two. The snapshot rounds the cached total, which is already rounded, a second time, and
  the update loop reads a NaN price as 0: with one item priced near forty trillion the
  reported total is one unit in the last place above roundPrice of the sum, and with one
  item priced NaN the reported total is 0 where roundPrice of the sum is NaN.
\<close>

theorem statistics_counterexample:
  "totalMenuValue (snapshotAfterUpdate 0 [menuItem ''x'' (Some (toDouble (39623823287974836 / 1000))) mains] initialCache)
     = Num (5071849380860781 / 128)
   \<and> roundPrice (totalMissingAsZero [menuItem ''x'' (Some (toDouble (39623823287974836 / 1000))) mains])
     = Num (1267962345215195 / 32)
   \<and> totalMenuValue (snapshotAfterUpdate 0 [menuItem ''y'' (Some NaN) mains] initialCache) = Num 0
   \<and> roundPrice (totalMissingAsZero [menuItem ''y'' (Some NaN) mains]) = NaN"
  by code_simp

text \<open>
  C2, as the code has it. Right after the update the snapshot reports the number of items;
  as total, roundPrice applied twice to the sum, taken in input order in binary64, of the
  prices with an absent, NaN or zero price as 0; and as average, roundPrice of the
  quotient of the once-rounded sum and the number of items, or 0 without items. When the
  sum is not finite or at most ten trillion in magnitude, the total is roundPrice of the
  sum and the average is roundPrice of the reported total over the reported number of
  items, as claimed. When no price is NaN, the sum is the sum with only absent prices as 0.
\<close>

theorem statistics_after_update:
  "totalMenuItems (snapshotAfterUpdate now items cache) = length items
   \<and> totalMenuValue (snapshotAfterUpdate now items cache) = roundPrice (roundPrice (totalOfPrices items))
   \<and> averageItemPrice (snapshotAfterUpdate now items cache) =
        (if items = [] then Num 0
         else roundPrice (num_div (roundPrice (totalOfPrices items)) (Num (of_nat (length items)))))
   \<and> (withinTenTrillion (totalOfPrices items) \<longrightarrow>
        totalMenuValue (snapshotAfterUpdate now items cache) = roundPrice (totalOfPrices items)
        \<and> averageItemPrice (snapshotAfterUpdate now items cache) =
            (if totalMenuItems (snapshotAfterUpdate now items cache) = 0 then Num 0
             else roundPrice (num_div (totalMenuValue (snapshotAfterUpdate now items cache))
                    (Num (of_nat (totalMenuItems (snapshotAfterUpdate now items cache)))))))
   \<and> ((\<forall>i \<in> set items. price i \<noteq> Some NaN) \<longrightarrow> totalOfPrices items = totalMissingAsZero items)"
proof -
  have n: "totalMenuItems (snapshotAfterUpdate now items cache) = length items"
    by (simp add: snapshotAfterUpdate_def getGlobalStatistics_def updateGlobalStatistics_def Let_def)
  have v: "totalMenuValue (snapshotAfterUpdate now items cache) = roundPrice (roundPrice (totalOfPrices items))"
    by (simp add: snapshotAfterUpdate_def getGlobalStatistics_def updateGlobalStatistics_def Let_def
        totalValueLoop_total)
  have a: "averageItemPrice (snapshotAfterUpdate now items cache) =
        (if items = [] then Num 0
         else roundPrice (num_div (roundPrice (totalOfPrices items)) (Num (of_nat (length items)))))"
    by (simp add: snapshotAfterUpdate_def getGlobalStatistics_def updateGlobalStatistics_def Let_def
        totalValueLoop_total)
  have w: "totalMenuValue (snapshotAfterUpdate now items cache) = roundPrice (totalOfPrices items)
        \<and> averageItemPrice (snapshotAfterUpdate now items cache) =
            (if totalMenuItems (snapshotAfterUpdate now items cache) = 0 then Num 0
             else roundPrice (num_div (totalMenuValue (snapshotAfterUpdate now items cache))
                    (Num (of_nat (totalMenuItems (snapshotAfterUpdate now items cache))))))"
    if "withinTenTrillion (totalOfPrices items)"
  proof -
    have "roundPrice (roundPrice (totalOfPrices items)) = roundPrice (totalOfPrices items)"
      using that
      by (cases "totalOfPrices items")
         (simp_all add: roundPrice_not_finite roundPrice_idempotent_bounded)
    then show ?thesis unfolding n v a by simp
  qed
  have z: "orZero p = defaultZero p" if "p \<noteq> Some NaN" for p
    using that by (cases p rule: orZero.cases) auto
  have m: "totalOfPrices items = totalMissingAsZero items" if "\<forall>i \<in> set items. price i \<noteq> Some NaN"
  proof -
    have "map (\<lambda>i. orZero (price i)) items = map (\<lambda>i. defaultZero (price i)) items"
      using that by (simp add: z)
    then show ?thesis unfolding totalOfPrices_def totalMissingAsZero_def by (rule arg_cong)
  qed
  show ?thesis using n v a w m by blast
qed

theorem statistics_after_update_witness:
  "withinTenTrillion
     (totalOfPrices [menuItem ''a'' (Some (Num 10)) mains, menuItem ''b'' None mains,
                     menuItem ''c'' (Some (Num (11 / 2))) desserts])
   \<and> totalMenuItems
        (snapshotAfterUpdate 7
           [menuItem ''a'' (Some (Num 10)) mains, menuItem ''b'' None mains,
            menuItem ''c'' (Some (Num (11 / 2))) desserts] initialCache) = 3
   \<and> totalMenuValue
        (snapshotAfterUpdate 7
           [menuItem ''a'' (Some (Num 10)) mains, menuItem ''b'' None mains,
            menuItem ''c'' (Some (Num (11 / 2))) desserts] initialCache) = Num (31 / 2)
   \<and> averageItemPrice
        (snapshotAfterUpdate 7
           [menuItem ''a'' (Some (Num 10)) mains, menuItem ''b'' None mains,
            menuItem ''c'' (Some (Num (11 / 2))) desserts] initialCache) = toDouble (517 / 100)"
proof -
  let ?items = "[menuItem ''a'' (Some (Num 10)) mains, menuItem ''b'' None mains,
                 menuItem ''c'' (Some (Num (11 / 2))) desserts]"
  note t = statistics_after_update [of 7 ?items initialCache]
  have s: "totalOfPrices ?items = Num (31 / 2)" by code_simp
  have w: "withinTenTrillion (totalOfPrices ?items)" unfolding s by simp
  have r: "roundPrice (Num (31 / 2)) = Num (31 / 2)" by code_simp
  have q: "roundPrice (num_div (Num (31 / 2)) (Num (of_nat 3))) = toDouble (517 / 100)" by code_simp
  have n: "totalMenuItems (snapshotAfterUpdate 7 ?items initialCache) = 3"
    using conjunct1 [OF t] by simp
  have v: "totalMenuValue (snapshotAfterUpdate 7 ?items initialCache) = Num (31 / 2)"
    using t w unfolding s r by blast
  have a: "averageItemPrice (snapshotAfterUpdate 7 ?items initialCache)
      = roundPrice (num_div (totalMenuValue (snapshotAfterUpdate 7 ?items initialCache))
          (Num (of_nat (totalMenuItems (snapshotAfterUpdate 7 ?items initialCache)))))"
    using t w n by (metis zero_neq_numeral)
  have a': "averageItemPrice (snapshotAfterUpdate 7 ?items initialCache) = toDouble (517 / 100)"
    using a unfolding v n q .
  show ?thesis
    by (rule conjI [OF w conjI [OF n conjI [OF v a']]])
qed

lemma perform_frame: "\<not> isUpdate c \<Longrightarrow> snd (perform toLowerCase c cache) = cache"
  by (cases c) (simp_all add: getGlobalStatistics_def Let_def)

lemma performAll_frame:
  "\<forall>c \<in> set cs. \<not> isUpdate c \<Longrightarrow> performAll toLowerCase cs cache = cache"
  by (induction cs arbitrary: cache) (simp_all add: perform_frame)

text \<open>
  C8. \<^verbatim>\<open>getGlobalStatistics\<close> returns the cache as it received it. Of the operations of the
  module only \<^verbatim>\<open>updateGlobalStatistics\<close> changes it: after any sequence of other calls, on
  any collections, the cache is the same and a snapshot reports the same statistics.
\<close>

theorem cache_frame:
  "snd (getGlobalStatistics cache) = cache
   \<and> (\<not> isUpdate c \<longrightarrow> snd (perform toLowerCase c cache) = cache)
   \<and> ((\<forall>c \<in> set cs. \<not> isUpdate c) \<longrightarrow>
        performAll toLowerCase cs cache = cache
        \<and> fst (perform toLowerCase GetGlobalStatistics (performAll toLowerCase cs cache))
            = fst (perform toLowerCase GetGlobalStatistics cache))"
  by (simp add: perform_frame performAll_frame) (simp add: getGlobalStatistics_def Let_def)

theorem cache_frame_witness:
  "\<not> isUpdate (SearchMenuItems [menuItem ''a'' (Some (Num 10)) mains] (str ''a''))
   \<and> list_all (\<lambda>c. \<not> isUpdate c)
        [CalculateAveragePriceByCourse [menuItem ''a'' (Some (Num 10)) mains],
         GetGlobalStatistics, SearchMenuItems [] (str ''a''), GetCategoryLabels]
   \<and> performAll toLowerCaseAscii
        [CalculateAveragePriceByCourse [menuItem ''a'' (Some (Num 10)) mains],
         GetGlobalStatistics, SearchMenuItems [] (str ''a''), GetCategoryLabels]
        (updateGlobalStatistics 7 [menuItem ''b'' (Some (Num 3)) mains] initialCache)
       = updateGlobalStatistics 7 [menuItem ''b'' (Some (Num 3)) mains] initialCache
   \<and> snd (perform toLowerCaseAscii
             (SearchMenuItems [menuItem ''a'' (Some (Num 10)) mains] (str ''a'')) initialCache)
       = initialCache
   \<and> totalMenuItems (updateGlobalStatistics 7 [menuItem ''b'' (Some (Num 3)) mains] initialCache) = 1
   \<and> totalMenuItems initialCache = 0"
proof -
  let ?cs = "[CalculateAveragePriceByCourse [menuItem ''a'' (Some (Num 10)) mains],
              GetGlobalStatistics, SearchMenuItems [] (str ''a''), GetCategoryLabels]"
  let ?cache = "updateGlobalStatistics 7 [menuItem ''b'' (Some (Num 3)) mains] initialCache"
  let ?c = "SearchMenuItems [menuItem ''a'' (Some (Num 10)) mains] (str ''a'')"
  have u: "\<not> isUpdate ?c" by simp
  have a: "\<forall>c \<in> set ?cs. \<not> isUpdate c" by simp
  have m: "totalMenuItems ?cache = 1 \<and> totalMenuItems initialCache = 0"
    by (simp add: updateGlobalStatistics_def initialCache_def)
  from cache_frame [of ?cache ?c toLowerCaseAscii ?cs] a
  have p: "performAll toLowerCaseAscii ?cs ?cache = ?cache" by blast
  from cache_frame [of initialCache ?c toLowerCaseAscii ?cs] u
  have q: "snd (perform toLowerCaseAscii ?c initialCache) = initialCache"
    by blast
  have a': "list_all (\<lambda>c. \<not> isUpdate c) ?cs" by simp
  show ?thesis
    using u a' p q m by blast
qed

section \<open>searchMenuItems\<close>

lemma all_dropWhile_iff:
  "(\<forall>x \<in> set (dropWhile P s). P x) \<longleftrightarrow> (\<forall>x \<in> set s. P x)"
proof
  assume a: "\<forall>x \<in> set (dropWhile P s). P x"
  have "dropWhile P s = []"
  proof (rule ccontr)
    assume n: "dropWhile P s \<noteq> []"
    then have "\<not> P (hd (dropWhile P s))" by (rule hd_dropWhile)
    moreover have "hd (dropWhile P s) \<in> set (dropWhile P s)" using n by simp
    ultimately show False using a by blast
  qed
  then show "\<forall>x \<in> set s. P x" by simp
next
  assume "\<forall>x \<in> set s. P x"
  then show "\<forall>x \<in> set (dropWhile P s). P x" by (auto dest: set_dropWhileD)
qed

lemma trim_empty_iff: "trim s = [] \<longleftrightarrow> (\<forall>c \<in> set s. isWhiteSpace c)"
  by (simp add: trim_def all_dropWhile_iff)

lemma holdsLowered_includes:
  "(includes_string (toLowerCase (name item)) lowered
    \<or> (case description item of
          None \<Rightarrow> False
        | Some d \<Rightarrow> includes_string (toLowerCase d) lowered))
   = holdsLowered toLowerCase lowered item"
  by (simp add: holdsLowered_def includes_string_def split: option.splits)

lemma searchLoop_invariant:
  "index st \<le> length (items_read st) \<Longrightarrow>
   searchLoop toLowerCase lowered st
     = st\<lparr>results := results st
                       @ filter (holdsLowered toLowerCase lowered) (drop (index st) (items_read st)),
          index := length (items_read st)\<rparr>"
proof (induction toLowerCase lowered st rule: searchLoop.induct)
  case (1 toLowerCase lowered st)
  show ?case
  proof (cases "index st < length (items_read st)")
    case True
    let ?item = "items_read st ! index st"
    let ?st' = "st\<lparr>results := (if holdsLowered toLowerCase lowered ?item
                                then results st @ [?item] else results st),
                    index := index st + 1\<rparr>"
    have step: "searchLoop toLowerCase lowered st = searchLoop toLowerCase lowered ?st'"
      by (subst searchLoop.simps) (simp add: True Let_def holdsLowered_includes)
    have ih: "searchLoop toLowerCase lowered ?st'
        = ?st'\<lparr>results := results ?st'
                   @ filter (holdsLowered toLowerCase lowered) (drop (index ?st') (items_read ?st')),
               index := length (items_read ?st')\<rparr>"
      using "1.IH" [OF True refl refl refl] True
      by (simp add: holdsLowered_includes)
    have d: "drop (index st) (items_read st) = ?item # drop (Suc (index st)) (items_read st)"
      using True by (simp add: Cons_nth_drop_Suc)
    show ?thesis
      unfolding step ih d by simp
  next
    case False
    with "1.prems" have e: "index st = length (items_read st)" by simp
    show ?thesis
      by (subst searchLoop.simps) (simp add: e)
  qed
qed

text \<open>
  C3. The claim: for a term that is not blank the result is exactly the items whose name
  or description contains the term, ignoring case. The code searches for the lower-cased
  term with the white space at its ends removed: the term \<^verbatim>\<open>" burger"\<close> finds the item named
  \<^verbatim>\<open>Burger\<close>, whose name does not contain the term with its leading space.
\<close>

theorem searchMenuItems_counterexample:
  "searchMenuItems toLowerCaseAscii [menuItem ''Burger'' (Some (Num 5)) mains] (str '' burger'')
     = ([menuItem ''Burger'' (Some (Num 5)) mains], [menuItem ''Burger'' (Some (Num 5)) mains])
   \<and> filter (matchesTerm toLowerCaseAscii (str '' burger''))
        [menuItem ''Burger'' (Some (Num 5)) mains] = []"
  by code_simp

text \<open>
  C3, as the code has it, whatever \<^verbatim>\<open>toLowerCase\<close> is. For an empty or all-white-space term
  the result is the input itself. Otherwise the result is the input filtered, in its
  order, to the items whose lower-cased name or lower-cased description contains the
  lower-cased term with the white space at its two ends removed. In either case the
  caller's collection is afterwards what it was. When lower-casing the term and trimming
  it give the same text in either order, the items found are those that contain the
  trimmed term as a case-insensitive substring.
\<close>

theorem searchMenuItems_filters:
  "searchMenuItems toLowerCase items term =
     (if \<forall>c \<in> set term. isWhiteSpace c then (items, items)
      else (filter (holdsLowered toLowerCase (trim (toLowerCase term))) items, items))
   \<and> snd (searchMenuItems toLowerCase items term) = items
   \<and> (\<not> (\<forall>c \<in> set term. isWhiteSpace c)
        \<and> trim (toLowerCase term) = toLowerCase (trim term) \<longrightarrow>
      fst (searchMenuItems toLowerCase items term)
        = filter (matchesTerm toLowerCase (trim term)) items)"
proof -
  have r: "searchMenuItems toLowerCase items term =
     (if \<forall>c \<in> set term. isWhiteSpace c then (items, items)
      else (filter (holdsLowered toLowerCase (trim (toLowerCase term))) items, items))"
    by (simp add: searchMenuItems_def trim_empty_iff searchLoop_invariant Let_def)
  have m: "holdsLowered toLowerCase (toLowerCase (trim term))
      = matchesTerm toLowerCase (trim term)"
    by (rule ext)
       (simp add: holdsLowered_def matchesTerm_def containsIgnoreCase_def split: option.splits)
  show ?thesis
    unfolding r using m by simp
qed

theorem searchMenuItems_filters_witness:
  "list_all isWhiteSpace (str ''  '')
   \<and> searchMenuItems toLowerCaseAscii
        [menuItem ''Burger'' (Some (Num 5)) mains,
         \<lparr>id' = str ''2'', name = str ''Salad'', description = Some (str ''with burger sauce''),
          price = None, category = appetizers\<rparr>,
         menuItem ''Soup'' None appetizers] (str ''  '')
       = ([menuItem ''Burger'' (Some (Num 5)) mains,
           \<lparr>id' = str ''2'', name = str ''Salad'', description = Some (str ''with burger sauce''),
            price = None, category = appetizers\<rparr>,
           menuItem ''Soup'' None appetizers],
          [menuItem ''Burger'' (Some (Num 5)) mains,
           \<lparr>id' = str ''2'', name = str ''Salad'', description = Some (str ''with burger sauce''),
            price = None, category = appetizers\<rparr>,
           menuItem ''Soup'' None appetizers])
   \<and> \<not> list_all isWhiteSpace (str '' BURGER '')
   \<and> trim (toLowerCaseAscii (str '' BURGER '')) = toLowerCaseAscii (trim (str '' BURGER ''))
   \<and> searchMenuItems toLowerCaseAscii
        [menuItem ''Burger'' (Some (Num 5)) mains,
         \<lparr>id' = str ''2'', name = str ''Salad'', description = Some (str ''with burger sauce''),
          price = None, category = appetizers\<rparr>,
         menuItem ''Soup'' None appetizers] (str '' BURGER '')
       = ([menuItem ''Burger'' (Some (Num 5)) mains,
           \<lparr>id' = str ''2'', name = str ''Salad'', description = Some (str ''with burger sauce''),
            price = None, category = appetizers\<rparr>],
          [menuItem ''Burger'' (Some (Num 5)) mains,
           \<lparr>id' = str ''2'', name = str ''Salad'', description = Some (str ''with burger sauce''),
            price = None, category = appetizers\<rparr>,
           menuItem ''Soup'' None appetizers])"
proof -
  let ?items = "[menuItem ''Burger'' (Some (Num 5)) mains,
         \<lparr>id' = str ''2'', name = str ''Salad'', description = Some (str ''with burger sauce''),
          price = None, category = appetizers\<rparr>,
         menuItem ''Soup'' None appetizers]"
  let ?found = "[menuItem ''Burger'' (Some (Num 5)) mains,
         \<lparr>id' = str ''2'', name = str ''Salad'', description = Some (str ''with burger sauce''),
          price = None, category = appetizers\<rparr>]"
  have b': "list_all isWhiteSpace (str ''  '')" by code_simp
  have n': "\<not> list_all isWhiteSpace (str '' BURGER '')" by code_simp
  have b: "\<forall>c \<in> set (str ''  ''). isWhiteSpace c"
    using b' unfolding list_all_iff .
  have n: "\<not> (\<forall>c \<in> set (str '' BURGER ''). isWhiteSpace c)"
    using n' unfolding list_all_iff .
  have t: "trim (toLowerCaseAscii (str '' BURGER '')) = toLowerCaseAscii (trim (str '' BURGER ''))"
    by code_simp
  have f: "filter (matchesTerm toLowerCaseAscii (trim (str '' BURGER ''))) ?items = ?found"
    by code_simp
  note blank = searchMenuItems_filters [of toLowerCaseAscii ?items "str ''  ''"]
  note burger = searchMenuItems_filters [of toLowerCaseAscii ?items "str '' BURGER ''"]
  have 1: "searchMenuItems toLowerCaseAscii ?items (str ''  '') = (?items, ?items)"
    unfolding conjunct1 [OF blank] using b by (rule if_P)
  have "fst (searchMenuItems toLowerCaseAscii ?items (str '' BURGER ''))
      = filter (matchesTerm toLowerCaseAscii (trim (str '' BURGER ''))) ?items"
    using conjunct2 [OF conjunct2 [OF burger]] n t by (rule mp [OF _ conjI])
  then have 2: "fst (searchMenuItems toLowerCaseAscii ?items (str '' BURGER '')) = ?found"
    unfolding f .
  have 3: "snd (searchMenuItems toLowerCaseAscii ?items (str '' BURGER '')) = ?items"
    by (rule conjunct1 [OF conjunct2 [OF burger]])
  have 4: "searchMenuItems toLowerCaseAscii ?items (str '' BURGER '') = (?found, ?items)"
    using 2 3 by (rule prod_eqI [OF trans [OF _ fst_conv [symmetric]]
                                   trans [OF _ snd_conv [symmetric]]])
  show ?thesis
    by (rule conjI [OF b' conjI [OF 1 conjI [OF n' conjI [OF t 4]]]])
qed

section \<open>handleSave\<close>

lemma dropWhile_id: "xs = [] \<or> \<not> P (hd xs) \<Longrightarrow> dropWhile P xs = xs"
  by (cases xs) auto

lemma trim_trim: "trim (trim s) = trim s"
proof -
  define t where "t = dropWhile isWhiteSpace s"
  define u where "u = dropWhile isWhiteSpace (rev t)"
  have ts: "trim s = rev u" by (simp add: trim_def t_def u_def)
  have t: "t = [] \<or> \<not> isWhiteSpace (hd t)"
    unfolding t_def using hd_dropWhile [of isWhiteSpace s] by blast
  have "takeWhile isWhiteSpace (rev t) @ u = rev t"
    unfolding u_def by simp
  then have "t = rev u @ rev (takeWhile isWhiteSpace (rev t))"
    by (metis rev_append rev_rev_ident)
  then have "rev u = [] \<or> hd (rev u) = hd t"
    by (metis hd_append2)
  with t have "rev u = [] \<or> \<not> isWhiteSpace (hd (rev u))"
    by (metis \<open>t = rev u @ rev (takeWhile isWhiteSpace (rev t))\<close> rev_is_Nil_conv
        append_is_Nil_conv)
  then have 1: "dropWhile isWhiteSpace (rev u) = rev u" by (rule dropWhile_id)
  have 2: "dropWhile isWhiteSpace u = u" by (simp add: u_def)
  show ?thesis
    unfolding ts by (simp add: trim_def 1 2)
qed

lemma num_lt_zero_cases:
  "num_lt (Num 0) p \<Longrightarrow> \<not> isNaN p \<and> \<not> num_lt p (Num 0) \<and> p \<noteq> Num 0"
  by (cases p) auto

lemma toDouble_range:
  assumes "toDouble q = Num r"
  shows "\<bar>r\<bar> < 2 powi 1024"
proof (cases "r = 0")
  case True
  then show ?thesis by simp
next
  case False
  have i: "toDouble r = Num r" using assms by (rule toDouble_idempotent)
  have "\<not> 1024 \<le> max (ilog2 \<bar>r\<bar>) (- 1022)"
  proof
    assume "1024 \<le> max (ilog2 \<bar>r\<bar>) (- 1022)"
    then have "1024 \<le> max (ilog2 \<bar>r\<bar>) (- 1022)
        \<or> (max (ilog2 \<bar>r\<bar>) (- 1022) = 1023
            \<and> 2 ^ 53 \<le> roundTiesToEven (\<bar>r\<bar> / 2 powi (max (ilog2 \<bar>r\<bar>) (- 1022) - 52)))"
      by (rule disjI1)
    then have over: "(1024 \<le> max (ilog2 \<bar>r\<bar>) (- 1022)
        \<or> (max (ilog2 \<bar>r\<bar>) (- 1022) = 1023
            \<and> 2 ^ 53 \<le> roundTiesToEven (\<bar>r\<bar> / 2 powi (max (ilog2 \<bar>r\<bar>) (- 1022) - 52))))
        = True"
      by (rule eqTrueI)
    have zero: "(r = 0) = False" using False by simp
    have "toDouble r = signedInfinity (0 < r)"
      unfolding toDouble_def Let_def by (simp only: over zero if_False if_True)
    with i show False by (simp add: signedInfinity_def split: if_splits)
  qed
  then have e: "ilog2 \<bar>r\<bar> + 1 \<le> 1024" by simp
  have "\<bar>r\<bar> < 2 powi (ilog2 \<bar>r\<bar> + 1)"
    using False by (intro ilog2_bounds(2)) simp
  also have "\<dots> \<le> 2 powi 1024"
    using e by (intro power_int_increasing) simp_all
  finally show ?thesis .
qed

lemma toDouble_nonpos: "q \<le> 0 \<Longrightarrow> \<not> num_lt (Num 0) (toDouble q)"
proof (cases "q = 0")
  case True
  then show ?thesis by (simp add: toDouble_def)
next
  case False
  assume "q \<le> 0"
  with False have n: "\<not> 0 < q" by simp
  define e where "e = max (ilog2 \<bar>q\<bar>) (- 1022)"
  define m where "m = roundTiesToEven (\<bar>q\<bar> / 2 powi (e - 52))"
  define x :: rat where "x = of_int m * 2 powi (e - 52)"
  have "0 \<le> \<bar>q\<bar> / 2 powi (e - 52)" by simp
  then have "0 \<le> m" unfolding m_def by (rule roundTiesToEven_nonneg)
  then have x: "0 \<le> x" unfolding x_def by simp
  have zero: "(q = 0) = False" using False by simp
  have pos: "(0 < q) = False" using n by simp
  have "toDouble q = (if 1024 \<le> e \<or> (e = 1023 \<and> 2 ^ 53 \<le> m) then NegInfinity else Num (- x))"
    unfolding toDouble_def Let_def signedInfinity_def x_def m_def e_def
    by (simp only: zero pos if_False)
  then show ?thesis
    using x by simp
qed

lemma toDouble_cents:
  fixes v :: rat
  assumes v: "v < 2 powi 1024" and n: "1 \<le> \<lfloor>v + 1 / 2\<rfloor>"
  shows "\<exists>r. toDouble (of_int \<lfloor>v + 1 / 2\<rfloor> / 100) = Num r \<and> 0 \<le> r"
proof -
  define P :: rat where "P = 2 powi 1023"
  define q :: rat where "q = of_int \<lfloor>v + 1 / 2\<rfloor> / 100"
  have P1: "1 \<le> P" unfolding P_def by (rule one_le_power_int) simp_all
  have "(2::rat) powi 1024 = 2 powi (1023 + 1)" by simp
  also have "\<dots> = 2 powi 1023 * 2 powi 1" by (subst power_int_add) simp_all
  finally have P2: "(2::rat) powi 1024 = 2 * P" by (simp add: P_def)
  have "of_int \<lfloor>v + 1 / 2\<rfloor> \<le> v + 1 / 2" by (rule of_int_floor_le)
  then have "q \<le> (v + 1 / 2) / 100" by (simp add: q_def)
  also have "\<dots> < (2 * P + 1 / 2) / 100" using v unfolding P2 by simp
  also have "\<dots> < P" using P1 by simp
  finally have qP: "q < 2 powi 1023" unfolding P_def .
  have q0: "0 < q" using n by (simp add: q_def)
  have "ilog2 q < 1023" using q0 qP by (rule ilog2_less)
  then have "ilog2 \<bar>q\<bar> < 1023" using q0 by simp
  from toDouble_finite [OF _ this] q0 obtain r where r: "toDouble q = Num r" by auto
  from toDouble_nonneg [of q] q0 r have "0 \<le> r" by auto
  with r show ?thesis unfolding q_def by blast
qed

lemma roundPrice_positive:
  assumes "num_lt (Num 0) (roundPrice x)"
  shows "(num_mul x (Num 100) = PosInfinity \<and> roundPrice x = PosInfinity)
     \<or> (\<exists>v. num_mul x (Num 100) = Num v \<and> 1 \<le> \<lfloor>v + 1 / 2\<rfloor>
            \<and> roundPrice x = toDouble (of_int \<lfloor>v + 1 / 2\<rfloor> / 100)
            \<and> roundedToCent (toDouble (of_int \<lfloor>v + 1 / 2\<rfloor> / 100)))"
proof (cases "num_mul x (Num 100)")
  case NaN
  then show ?thesis using assms by (simp add: roundPrice_def)
next
  case PosInfinity
  then show ?thesis by (simp add: roundPrice_def signedInfinity_def)
next
  case NegInfinity
  then show ?thesis using assms by (simp add: roundPrice_def signedInfinity_def)
next
  case (Num v)
  have rp: "roundPrice x = toDouble (of_int \<lfloor>v + 1 / 2\<rfloor> / 100)"
    by (simp add: roundPrice_def Num)
  have n: "1 \<le> \<lfloor>v + 1 / 2\<rfloor>"
  proof (rule ccontr)
    assume "\<not> 1 \<le> \<lfloor>v + 1 / 2\<rfloor>"
    then have "\<lfloor>v + 1 / 2\<rfloor> \<le> 0" by simp
    then have "(of_int \<lfloor>v + 1 / 2\<rfloor> :: rat) \<le> 0" by simp
    then have "(of_int \<lfloor>v + 1 / 2\<rfloor> :: rat) / 100 \<le> 0" by simp
    from toDouble_nonpos [OF this] assms show False unfolding rp by simp
  qed
  obtain a where x: "x = Num a"
    using Num by (cases x) (simp_all add: signedInfinity_def split: if_splits)
  have "toDouble (a * 100) = Num v" using Num by (simp add: x)
  then have "\<bar>v\<bar> < 2 powi 1024" by (rule toDouble_range)
  then have "v < 2 powi 1024" by simp
  from toDouble_cents [OF this n] obtain r
    where r: "toDouble (of_int \<lfloor>v + 1 / 2\<rfloor> / 100) = Num r" "0 \<le> r" by blast
  have "roundedToCent (toDouble (of_int \<lfloor>v + 1 / 2\<rfloor> / 100))"
    unfolding roundedToCent_def using r n
    by (intro exI [of _ "\<lfloor>v + 1 / 2\<rfloor>"] exI [of _ r]) simp
  with Num n rp show ?thesis by blast
qed

lemma not_roundedToCent_PosInfinity: "\<not> roundedToCent PosInfinity"
  by (simp add: roundedToCent_def)

text \<open>
  C7. The claim: every item passed to \<^verbatim>\<open>saveMenuItem\<close> has a price rounded to the nearest
  cent. The price text \<^verbatim>\<open>Infinity\<close> passes both guards: \<^verbatim>\<open>parseFloat\<close> reads positive infinity,
  \<^verbatim>\<open>parsePrice\<close> returns it, \<^verbatim>\<open>isValidPrice\<close> accepts it and it is greater than 0. The item is
  saved with the price positive infinity, which is no number of cents.
\<close>

theorem handleSave_infinity_counterexample:
  "handleSave (str ''17'') True
     \<lparr>name_state = str ''Soup'', description_state = [], price_state = str ''Infinity'',
      category_state = mains, editingId = None\<rparr>
     = [SaveMenuItem \<lparr>id' = str ''17'', name = str ''Soup'', description = Some [],
          price = Some PosInfinity, category = mains\<rparr>,
        Alert (str ''Success'') (str ''Menu item added successfully'')]
   \<and> \<not> roundedToCent PosInfinity"
proof -
  have h: "handleSave (str ''17'') True
     \<lparr>name_state = str ''Soup'', description_state = [], price_state = str ''Infinity'',
      category_state = mains, editingId = None\<rparr>
     = [SaveMenuItem \<lparr>id' = str ''17'', name = str ''Soup'', description = Some [],
          price = Some PosInfinity, category = mains\<rparr>,
        Alert (str ''Success'') (str ''Menu item added successfully'')]"
    by code_simp
  show ?thesis
    by (rule conjI [OF h not_roundedToCent_PosInfinity])
qed

text \<open>
  C7, as the code has it. Whenever \<^verbatim>\<open>handleSave\<close> calls \<^verbatim>\<open>saveMenuItem\<close>, the trimmed name is
  not empty and the parsed price passes \<^verbatim>\<open>isValidPrice\<close> and is greater than 0. The item
  passed has the trimmed name, which is not empty and has no white space left at either
  end; the category selected in the form, which is one of the keys of the screen's list of
  categories; and the price \<^verbatim>\<open>parsePrice\<close> gave for the input, which is roundPrice of the
  parsed number and is not negative. That price is positive infinity when the parsed
  number times 100 is. Otherwise it is a whole number of cents, at least one: the parsed
  number times 100, rounded to the nearest integer with a half going up, and divided by
  100 in binary64.
\<close>

theorem handleSave_saves_valid:
  assumes "SaveMenuItem item \<in> set (handleSave now saved st)"
  shows "trim (name_state st) \<noteq> []
     \<and> isValidPrice (Some (parsePrice (price_state st)))
     \<and> num_gt (parsePrice (price_state st)) (Num 0)
     \<and> name item = trim (name_state st) \<and> name item \<noteq> [] \<and> trim (name item) = name item
     \<and> category item = category_state st \<and> category item \<in> key ` set categories
     \<and> price item = Some (parsePrice (price_state st))
     \<and> price item = Some (roundPrice (parseFloat (price_state st)))
     \<and> \<not> num_lt (parsePrice (price_state st)) (Num 0)
     \<and> ((num_mul (parseFloat (price_state st)) (Num 100) = PosInfinity
          \<and> price item = Some PosInfinity)
        \<or> (\<exists>v. num_mul (parseFloat (price_state st)) (Num 100) = Num v
              \<and> 1 \<le> \<lfloor>v + 1 / 2\<rfloor>
              \<and> price item = Some (toDouble (of_int \<lfloor>v + 1 / 2\<rfloor> / 100))
              \<and> roundedToCent (toDouble (of_int \<lfloor>v + 1 / 2\<rfloor> / 100))))"
proof -
  define p where "p = parsePrice (price_state st)"
  have n: "trim (name_state st) \<noteq> []"
    using assms by (auto simp: handleSave_def split: if_splits)
  have v: "isValidPrice (Some p)" and g: "\<not> num_le p (Num 0)"
    using assms n by (auto simp: handleSave_def p_def Let_def split: if_splits)
  have i: "item = \<lparr>id' = (case editingId st of Some editing \<Rightarrow> editing | None \<Rightarrow> now),
                    name = trim (name_state st),
                    description = Some (trim (description_state st)),
                    price = Some p,
                    category = category_state st\<rparr>"
    using assms n v g by (auto simp: handleSave_def p_def Let_def split: if_splits)
  have gt: "num_lt (Num 0) p"
    using v g by (simp add: isValidPrice_def num_le_def)
  note z = num_lt_zero_cases [OF gt]
  have r: "p = roundPrice (parseFloat (price_state st))"
    using z unfolding p_def parsePrice_def Let_def by (auto split: if_splits)
  have c: "category_state st \<in> key ` set categories"
    by (cases "category_state st") (simp_all add: categories_def)
  have pi: "price item = Some (roundPrice (parseFloat (price_state st)))"
    using r by (simp add: i)
  have "num_lt (Num 0) (roundPrice (parseFloat (price_state st)))"
    using gt unfolding r .
  from roundPrice_positive [OF this]
  have d: "(num_mul (parseFloat (price_state st)) (Num 100) = PosInfinity
          \<and> price item = Some PosInfinity)
        \<or> (\<exists>v. num_mul (parseFloat (price_state st)) (Num 100) = Num v
              \<and> 1 \<le> \<lfloor>v + 1 / 2\<rfloor>
              \<and> price item = Some (toDouble (of_int \<lfloor>v + 1 / 2\<rfloor> / 100))
              \<and> roundedToCent (toDouble (of_int \<lfloor>v + 1 / 2\<rfloor> / 100)))"
    unfolding pi by (elim disjE exE conjE) simp_all
  have rest: "trim (name_state st) \<noteq> []
     \<and> isValidPrice (Some (parsePrice (price_state st)))
     \<and> num_gt (parsePrice (price_state st)) (Num 0)
     \<and> name item = trim (name_state st) \<and> name item \<noteq> [] \<and> trim (name item) = name item
     \<and> category item = category_state st \<and> category item \<in> key ` set categories
     \<and> price item = Some (parsePrice (price_state st))
     \<and> price item = Some (roundPrice (parseFloat (price_state st)))
     \<and> \<not> num_lt (parsePrice (price_state st)) (Num 0)"
    using n v gt z r c
    by (simp add: i num_gt_def trim_trim flip: p_def)
  show ?thesis
    using rest d by blast
qed

theorem handleSave_saves_valid_witness:
  "SaveMenuItem
     \<lparr>id' = str ''17'', name = str ''Soup'', description = Some (str ''hot''),
      price = Some (toDouble (1257 / 100)), category = mains\<rparr>
     \<in> set (handleSave (str ''17'') True
         \<lparr>name_state = str '' Soup '', description_state = str '' hot'',
          price_state = str ''12.567'', category_state = mains, editingId = None\<rparr>)
   \<and> trim (str '' Soup '') = str ''Soup''
   \<and> parsePrice (str ''12.567'') = toDouble (1257 / 100)
   \<and> num_gt (toDouble (1257 / 100)) (Num 0)
   \<and> num_mul (parseFloat (str ''12.567'')) (Num 100) = Num (5527025050504397 / 2 ^ 42)
   \<and> \<lfloor>(5527025050504397 / 2 ^ 42 :: rat) + 1 / 2\<rfloor> = 1257
   \<and> roundedToCent (toDouble (1257 / 100))"
proof -
  let ?item = "\<lparr>id' = str ''17'', name = str ''Soup'', description = Some (str ''hot''),
      price = Some (toDouble (1257 / 100)), category = mains\<rparr>"
  let ?st = "\<lparr>name_state = str '' Soup '', description_state = str '' hot'',
          price_state = str ''12.567'', category_state = mains, editingId = None\<rparr>"
  have h: "handleSave (str ''17'') True ?st
     = [SaveMenuItem ?item, Alert (str ''Success'') (str ''Menu item added successfully'')]"
    by code_simp
  then have m: "SaveMenuItem ?item \<in> set (handleSave (str ''17'') True ?st)"
    by simp
  have t: "trim (str '' Soup '') = str ''Soup''" by code_simp
  have s: "num_mul (parseFloat (str ''12.567'')) (Num 100) = Num (5527025050504397 / 2 ^ 42)"
    by code_simp
  have fl: "\<lfloor>(5527025050504397 / 2 ^ 42 :: rat) + 1 / 2\<rfloor> = 1257"
    by code_simp
  note all = handleSave_saves_valid [OF m]
  have p: "num_gt (parsePrice (str ''12.567'')) (Num 0)
      \<and> Some (toDouble (1257 / 100)) = Some (parsePrice (str ''12.567''))"
    using all by simp
  have "(num_mul (parseFloat (price_state ?st)) (Num 100) = PosInfinity
          \<and> price ?item = Some PosInfinity)
        \<or> (\<exists>v. num_mul (parseFloat (price_state ?st)) (Num 100) = Num v
              \<and> 1 \<le> \<lfloor>v + 1 / 2\<rfloor>
              \<and> price ?item = Some (toDouble (of_int \<lfloor>v + 1 / 2\<rfloor> / 100))
              \<and> roundedToCent (toDouble (of_int \<lfloor>v + 1 / 2\<rfloor> / 100)))"
    using all by blast
  then have c: "roundedToCent (toDouble (1257 / 100))"
    by (auto simp: s)
  show ?thesis
    using m t p s fl c by simp
qed

section \<open>The upsert of the persistence gateway\<close>

lemma replaceById_length: "length (replaceById item items) = length items"
  by (induction items) simp_all

lemma replaceById_distinct:
  "distinct (map id' items) \<Longrightarrow>
   replaceById item items = map (\<lambda>x. if id' x = id' item then item else x) items"
proof (induction items)
  case Nil
  then show ?case by simp
next
  case (Cons x xs)
  show ?case
  proof (cases "id' x = id' item")
    case True
    then have "id' item \<notin> id' ` set xs" using Cons.prems by simp
    then have "\<forall>y \<in> set xs. id' y \<noteq> id' item" by (metis image_eqI)
    then have "map (\<lambda>x. if id' x = id' item then item else x) xs = xs"
      by (induction xs) simp_all
    then show ?thesis using True by simp
  next
    case False
    then show ?thesis using Cons by simp
  qed
qed

lemma replaceById_member:
  "\<exists>x \<in> set items. id' x = id' item \<Longrightarrow> item \<in> set (replaceById item items)"
  by (induction items) auto

text \<open>
  C9. On a medium that can be read, the upsert succeeds. When no stored item has the id of
  the given item, loading afterwards gives the earlier collection followed by the item.
  When a stored item has that id, loading afterwards gives a collection of the same
  length that contains the item; with distinct stored ids it is the earlier collection
  with the entry of that id replaced by the item and every other entry in place.
\<close>

theorem saveMenuItem_upsert:
  assumes "loadMenuItems m = Inr items"
  shows "\<exists>m'. saveMenuItem item m = Inr m'
     \<and> ((\<forall>x \<in> set items. id' x \<noteq> id' item) \<longrightarrow> loadMenuItems m' = Inr (items @ [item]))
     \<and> ((\<exists>x \<in> set items. id' x = id' item) \<longrightarrow>
          (\<exists>items'. loadMenuItems m' = Inr items' \<and> length items' = length items
             \<and> item \<in> set items'
             \<and> (distinct (map id' items) \<longrightarrow>
                  items' = map (\<lambda>x. if id' x = id' item then item else x) items)))"
  using assms
  by (auto simp: saveMenuItem_def loadMenuItems_def replaceById_length replaceById_distinct
      replaceById_member)

theorem saveMenuItem_upsert_witness:
  "loadMenuItems (Stored [menuItem ''1'' (Some (Num 10)) mains, menuItem ''2'' None desserts])
     = Inr [menuItem ''1'' (Some (Num 10)) mains, menuItem ''2'' None desserts]
   \<and> (\<exists>m'. saveMenuItem (menuItem ''3'' (Some (Num 4)) beverages)
               (Stored [menuItem ''1'' (Some (Num 10)) mains, menuItem ''2'' None desserts]) = Inr m'
          \<and> loadMenuItems m'
              = Inr [menuItem ''1'' (Some (Num 10)) mains, menuItem ''2'' None desserts,
                     menuItem ''3'' (Some (Num 4)) beverages])
   \<and> (\<exists>m'. saveMenuItem (menuItem ''2'' (Some (Num 6)) desserts)
               (Stored [menuItem ''1'' (Some (Num 10)) mains, menuItem ''2'' None desserts]) = Inr m'
          \<and> loadMenuItems m'
              = Inr [menuItem ''1'' (Some (Num 10)) mains, menuItem ''2'' (Some (Num 6)) desserts])"
proof -
  let ?items = "[menuItem ''1'' (Some (Num 10)) mains, menuItem ''2'' None desserts]"
  let ?new = "menuItem ''3'' (Some (Num 4)) beverages"
  let ?upd = "menuItem ''2'' (Some (Num 6)) desserts"
  have l: "loadMenuItems (Stored ?items) = Inr ?items" by (simp add: loadMenuItems_def)
  have fresh: "\<forall>x \<in> set ?items. id' x \<noteq> id' ?new" by (simp add: menuItem_def str_def)
  have known: "\<exists>x \<in> set ?items. id' x = id' ?upd" by (simp add: menuItem_def str_def)
  have d: "distinct (map id' ?items)" by (simp add: menuItem_def str_def)
  have r: "map (\<lambda>x. if id' x = id' ?upd then ?upd else x) ?items
      = [menuItem ''1'' (Some (Num 10)) mains, ?upd]"
    by (simp add: menuItem_def str_def)
  from saveMenuItem_upsert [OF l, of ?new] fresh
  have 1: "\<exists>m'. saveMenuItem ?new (Stored ?items) = Inr m'
          \<and> loadMenuItems m' = Inr (?items @ [?new])"
    by blast
  from saveMenuItem_upsert [OF l, of ?upd] known d
  have 2: "\<exists>m'. saveMenuItem ?upd (Stored ?items) = Inr m'
          \<and> loadMenuItems m' = Inr (map (\<lambda>x. if id' x = id' ?upd then ?upd else x) ?items)"
    by blast
  show ?thesis
    using l 1 2 unfolding r by simp
qed

end
